theory Spec2Isabelle
  imports Main "HOL-Library.Char_ord" "HOL-Library.List_Lexorder" "HOL-Library.Product_Lexorder"
begin

section \<open>Strings\<close>

text \<open>
  JavaScript's \<open>s.split(c)\<close> for a one-character separator: the pieces between the
  separators, in order; a string without the separator is returned as its only piece.
\<close>

fun split_on :: "char \<Rightarrow> string \<Rightarrow> string list" where
  "split_on c [] = [[]]"
| "split_on c (x # xs) =
     (if x = c then [] # split_on c xs
      else (case split_on c xs of p # ps \<Rightarrow> (x # p) # ps | [] \<Rightarrow> [[x]]))"

text \<open>
  \<open>tagName.split("-")[1] || "production"\<close>, the expression of \<open>refreshCache\<close>
  (cache.js, line 115) and of \<open>update\<close> (routes.js, line 131): the second piece when there
  is one and it is not the empty string, otherwise \<open>production\<close>.
\<close>

definition environmentName :: "string \<Rightarrow> string" where
  "environmentName tagName =
     (case split_on CHR ''-'' tagName of
        _ # s # _ \<Rightarrow> if s = [] then ''production'' else s
      | _ \<Rightarrow> ''production'')"

text \<open>The ASCII and Latin-1 characters that \<open>String.prototype.trim\<close> removes.\<close>

definition is_space :: "char \<Rightarrow> bool" where
  "is_space c = (of_char c \<in> {9, 10, 11, 12, 13, 32, 160 :: nat})"

definition trim :: "string \<Rightarrow> string" where
  "trim s = rev (dropWhile is_space (rev (dropWhile is_space s)))"

section \<open>The semver package\<close>

text \<open>
  \<open>semver\<close> is an npm dependency of the repository (\<open>valid\<close>, \<open>compare\<close> and \<open>gt\<close> are
  the functions used). It is modelled after the package's strict mode: the grammar of its
  \<open>FULL\<close> regular expression, its \<open>SemVer\<close> constructor and the \<open>compare\<close> method.
  The package compares numeric identifiers as double-precision numbers; \<open>to_double\<close>
  below is that conversion for the natural numbers an identifier can denote.
\<close>

definition is_digit :: "char \<Rightarrow> bool" where
  "is_digit c = (c \<in> set ''0123456789'')"

definition is_letter_dash :: "char \<Rightarrow> bool" where
  "is_letter_dash c =
     (c \<in> set ''abcdefghijklmnopqrstuvwxyzABCDEFGHIJKLMNOPQRSTUVWXYZ-'')"

text \<open>\<open>NUMERICIDENTIFIER\<close>: \<open>0|[1-9]\d*\<close>.\<close>

fun numeric_identifier :: "string \<Rightarrow> bool" where
  "numeric_identifier [] = False"
| "numeric_identifier [c] = is_digit c"
| "numeric_identifier (c # cs) = (is_digit c \<and> c \<noteq> CHR ''0'' \<and> list_all is_digit cs)"

text \<open>\<open>PRERELEASEIDENTIFIER\<close>: a numeric identifier or \<open>\d*[a-zA-Z-][a-zA-Z0-9-]*\<close>.\<close>

definition prerelease_identifier :: "string \<Rightarrow> bool" where
  "prerelease_identifier s =
     (numeric_identifier s \<or>
      (list_all (\<lambda>c. is_digit c \<or> is_letter_dash c) s \<and> list_ex is_letter_dash s))"

text \<open>\<open>BUILDIDENTIFIER\<close>: \<open>[0-9A-Za-z-]+\<close>.\<close>

definition build_identifier :: "string \<Rightarrow> bool" where
  "build_identifier s = (s \<noteq> [] \<and> list_all (\<lambda>c. is_digit c \<or> is_letter_dash c) s)"

text \<open>The text before the first occurrence of a character, and the text after it if any.\<close>

definition cut :: "char \<Rightarrow> string \<Rightarrow> string \<times> string option" where
  "cut c s =
     (takeWhile (\<lambda>x. x \<noteq> c) s,
      if c \<in> set s then Some (tl (dropWhile (\<lambda>x. x \<noteq> c) s)) else None)"

text \<open>
  A match of \<open>^v?MAJOR.MINOR.PATCH(-PRERELEASE)?(+BUILD)?$\<close>: the five groups, or \<open>None\<close>
  when the string does not match.
\<close>

definition match_full ::
  "string \<Rightarrow> (string \<times> string \<times> string \<times> string option \<times> string option) option" where
  "match_full s =
     (let s1 = (case s of c # r \<Rightarrow> if c = CHR ''v'' then r else s | [] \<Rightarrow> s);
          (mp, bld) = cut CHR ''+'' s1;
          (mn, pre) = cut CHR ''-'' mp
      in case split_on CHR ''.'' mn of
           [a, b, c] \<Rightarrow>
             if numeric_identifier a \<and> numeric_identifier b \<and> numeric_identifier c \<and>
                (case pre of None \<Rightarrow> True
                 | Some p \<Rightarrow> list_all prerelease_identifier (split_on CHR ''.'' p)) \<and>
                (case bld of None \<Rightarrow> True
                 | Some q \<Rightarrow> list_all build_identifier (split_on CHR ''.'' q))
             then Some (a, b, c, pre, bld) else None
         | _ \<Rightarrow> None)"

datatype ident = Num int | Str string

record semver =
  major :: int
  minor :: int
  patch :: int
  prerelease :: "ident list"
  build :: "string list"

definition to_number :: "string \<Rightarrow> int" where
  "to_number s = foldl (\<lambda>n c. 10 * n + (of_char c - 48)) 0 s"

definition MAX_LENGTH :: nat where
  "MAX_LENGTH = 256"

definition MAX_SAFE_INTEGER :: int where
  "MAX_SAFE_INTEGER = 9007199254740991"

text \<open>The test \<open>/^[0-9]+$/\<close>.\<close>

definition numeric :: "string \<Rightarrow> bool" where
  "numeric s = (s \<noteq> [] \<and> list_all is_digit s)"

text \<open>
  \<open>+id\<close> for a string of digits that denotes \<open>n\<close>: the nearest double, the one with the
  even significand when two are equally near. Below two to the power 53 every natural
  number is a double. From there on \<open>exponent n\<close> is the number of low bits that do not fit
  into the 53 bits of the significand. (A version has at most 256 characters, so the
  numbers are far below the largest double.)
\<close>

function exponent :: "int \<Rightarrow> nat" where
  "exponent n = (if n < 9007199254740992 then 0 else Suc (exponent (n div 2)))"
  by pat_completeness auto
termination
  by (relation "measure nat") auto

definition to_double :: "int \<Rightarrow> int" where
  "to_double n =
     (let e = exponent n; q = n div 2 ^ e; r = n mod 2 ^ e
      in if e = 0 then n
         else if 2 ^ e < 2 * r \<or> (2 * r = 2 ^ e \<and> odd q) then (q + 1) * 2 ^ e
         else q * 2 ^ e)"

text \<open>
  The constructor turns a prerelease identifier into a number when it consists of digits
  and the number is below \<open>MAX_SAFE_INTEGER\<close>; every other identifier stays a string.
\<close>

definition to_ident :: "string \<Rightarrow> ident" where
  "to_ident s =
     (if numeric s \<and> to_double (to_number s) < MAX_SAFE_INTEGER then Num (to_number s)
      else Str s)"

text \<open>
  \<open>new SemVer(version)\<close>: \<open>None\<close> stands for the \<open>TypeError\<close> the constructor throws on
  a string that is too long, does not match after trimming, or has a component above
  \<open>MAX_SAFE_INTEGER\<close>.
\<close>

definition semver_new :: "string \<Rightarrow> semver option" where
  "semver_new version =
     (if length version > MAX_LENGTH then None
      else case match_full (trim version) of
        None \<Rightarrow> None
      | Some (a, b, c, pre, bld) \<Rightarrow>
          if to_number a > MAX_SAFE_INTEGER \<or> to_number b > MAX_SAFE_INTEGER \<or>
             to_number c > MAX_SAFE_INTEGER then None
          else Some \<lparr>major = to_number a, minor = to_number b, patch = to_number c,
            prerelease = (case pre of None \<Rightarrow> [] | Some p \<Rightarrow> map to_ident (split_on CHR ''.'' p)),
            build = (case bld of None \<Rightarrow> [] | Some q \<Rightarrow> split_on CHR ''.'' q)\<rparr>)"

text \<open>
  \<open>semver.valid(version)\<close> is truthy when the untrimmed string passes the length check and
  the regular expression, and the constructor accepts it (\<open>parse\<close> of version 5 of the
  package; later versions trim the string first).
\<close>

definition valid :: "string \<Rightarrow> bool" where
  "valid version =
     (length version \<le> MAX_LENGTH \<and> match_full version \<noteq> None \<and> semver_new version \<noteq> None)"

definition compareNumber :: "int \<Rightarrow> int \<Rightarrow> int" where
  "compareNumber a b = (if a < b then - 1 else if b < a then 1 else 0)"

text \<open>
  \<open>compareIdentifiers(a, b)\<close>: when both identifiers pass the test for digits they are
  converted to numbers and compared as numbers (a number is its own conversion); one that
  passes is below one that does not; two that do not are compared as strings.
\<close>

fun compareIdentifiers :: "ident \<Rightarrow> ident \<Rightarrow> int" where
  "compareIdentifiers (Num a) (Num b) = compareNumber a b"
| "compareIdentifiers (Num a) (Str b) =
     (if numeric b then compareNumber a (to_double (to_number b)) else - 1)"
| "compareIdentifiers (Str a) (Num b) =
     (if numeric a then compareNumber (to_double (to_number a)) b else 1)"
| "compareIdentifiers (Str a) (Str b) =
     (if numeric a \<and> numeric b
      then compareNumber (to_double (to_number a)) (to_double (to_number b))
      else if numeric a then - 1
      else if numeric b then 1
      else if a < b then - 1 else if b < a then 1 else 0)"

definition compareMain :: "semver \<Rightarrow> semver \<Rightarrow> int" where
  "compareMain x y =
     (if compareNumber (major x) (major y) \<noteq> 0 then compareNumber (major x) (major y)
      else if compareNumber (minor x) (minor y) \<noteq> 0 then compareNumber (minor x) (minor y)
      else compareNumber (patch x) (patch y))"

text \<open>
  The \<open>do ... while (++i)\<close> loop of \<open>comparePre\<close>, over the two identifier lists. It
  goes on to the next pair only when \<open>a === b\<close>; otherwise it returns what
  \<open>compareIdentifiers\<close> gives, also when that is 0.
\<close>

fun comparePreLoop :: "ident list \<Rightarrow> ident list \<Rightarrow> int" where
  "comparePreLoop [] [] = 0"
| "comparePreLoop (a # as) [] = 1"
| "comparePreLoop [] (b # bs) = - 1"
| "comparePreLoop (a # as) (b # bs) =
     (if a = b then comparePreLoop as bs else compareIdentifiers a b)"

definition comparePre :: "semver \<Rightarrow> semver \<Rightarrow> int" where
  "comparePre x y =
     (if prerelease x \<noteq> [] \<and> prerelease y = [] then - 1
      else if prerelease x = [] \<and> prerelease y \<noteq> [] then 1
      else if prerelease x = [] \<and> prerelease y = [] then 0
      else comparePreLoop (prerelease x) (prerelease y))"

definition compare_semver :: "semver \<Rightarrow> semver \<Rightarrow> int" where
  "compare_semver x y = (if compareMain x y \<noteq> 0 then compareMain x y else comparePre x y)"

text \<open>
  \<open>semver.compare(a, b)\<close> and \<open>semver.gt(a, b)\<close> on strings: both construct the two
  versions first, so \<open>None\<close> is the \<open>TypeError\<close> of an invalid argument.
\<close>

definition compare :: "string \<Rightarrow> string \<Rightarrow> int option" where
  "compare a b =
     (case semver_new a of None \<Rightarrow> None
      | Some x \<Rightarrow> (case semver_new b of None \<Rightarrow> None | Some y \<Rightarrow> Some (compare_semver x y)))"

definition gt :: "string \<Rightarrow> string \<Rightarrow> bool option" where
  "gt a b = map_option (\<lambda>c. c > 0) (compare a b)"

section \<open>Plain objects\<close>

text \<open>
  The index is a plain JavaScript object used as a dictionary. Reading \<open>obj[key]\<close> yields
  the object's own property when it has one; otherwise a key that names a property of
  \<open>Object.prototype\<close> yields that inherited (truthy) value, and any other key yields
  \<open>undefined\<close>.
\<close>

datatype 'a property = Own 'a | Inherited | Undefined

definition prototype_key :: "string \<Rightarrow> bool" where
  "prototype_key k =
     (k \<in> set [''constructor'', ''__proto__'', ''hasOwnProperty'', ''isPrototypeOf'',
        ''propertyIsEnumerable'', ''toLocaleString'', ''toString'', ''valueOf'',
        ''__defineGetter__'', ''__defineSetter__'', ''__lookupGetter__'',
        ''__lookupSetter__''])"

definition get_property :: "(string \<rightharpoonup> 'a) \<Rightarrow> string \<Rightarrow> 'a property" where
  "get_property obj k =
     (case obj k of Some v \<Rightarrow> Own v
      | None \<Rightarrow> if prototype_key k then Inherited else Undefined)"

section \<open>Data model of the cache (cache.js)\<close>

text \<open>An asset and a release as the GitHub API lists them.\<close>

record raw_asset =
  name :: string
  browser_download_url :: string
  url :: string
  content_type :: string
  size_bytes :: int

text \<open>
  \<open>tag_name\<close> is the empty string when the field is missing, \<open>null\<close> or empty (the
  code only tests \<open>!tagName\<close>); \<open>assets\<close> is \<open>None\<close> when the field is missing.
\<close>

record raw_release =
  draft :: bool
  tag_name :: string
  assets :: "raw_asset list option"
  body :: string
  published_at :: string

text \<open>
  The entries the cache keeps: for an asset the fields \<open>name\<close>, \<open>api_url\<close>, \<open>url\<close>,
  \<open>content_type\<close> and \<open>size\<close> of the code, for a release \<open>version\<close>, \<open>notes\<close>,
  \<open>pub_date\<close> and \<open>platforms\<close>. \<open>asset_size\<close> is the size in tenths of a megabyte,
  \<open>Math.round((size / 1000000) * 10)\<close> in exact arithmetic (the code divides it by 10).
\<close>

record asset =
  asset_name :: string
  api_url :: string
  asset_url :: string
  asset_content_type :: string
  asset_size :: int

record release =
  release_version :: string
  release_notes :: string
  pub_date :: string
  platforms :: "string \<rightharpoonup> asset"

text \<open>
  The configuration. \<open>base_url\<close> is its field \<open>url\<close>; \<open>interval\<close> is a number of
  minutes, \<open>None\<close> when it is not configured.
\<close>

record config =
  account :: string
  repository :: string
  token :: "string option"
  base_url :: "string option"
  interval :: "int option"

text \<open>
  The two mutable fields of the \<open>Cache\<close> object that the code writes after construction.
  (\<open>this.latest\<close> stays the empty object.)
\<close>

record cache =
  lastUpdate :: "int option"
  latestReleaseByEnvironment :: "string \<rightharpoonup> release"

text \<open>
  The errors: of the constructor, of an answer whose status is not 200 (with the status),
  of a request that fails in transport (with its message), of \<open>response.json()\<close>, of
  semver on an invalid version, and of reading a property of \<open>undefined\<close>.
\<close>

datatype error =
  MissingConfiguration
  | GitHubStatus int
  | FetchError string
  | InvalidJson
  | InvalidVersion
  | TypeError

section \<open>The outside world\<close>

text \<open>
  What \<open>response.json()\<close> gives: it rejects on a body that is not JSON, and otherwise
  yields a value that is an array of releases or something else.
\<close>

datatype json = NotJson | NotArray | Releases "raw_release list"

datatype fetch_result = Response int json | Rejected string

record request =
  request_url :: string
  authorization :: "string option"

text \<open>
  The network answers the \<open>n\<close>-th request with \<open>net n\<close> after \<open>latency n\<close>
  milliseconds; \<open>requests\<close> logs what was sent and \<open>clock\<close> is what \<open>Date.now()\<close>
  reads.
\<close>

record world =
  net :: "nat \<Rightarrow> fetch_result"
  latency :: "nat \<Rightarrow> nat"
  requests :: "request list"
  clock :: int

text \<open>Sending a request, and the arrival of the answer to request \<open>i\<close>.\<close>

definition send :: "request \<Rightarrow> world \<Rightarrow> nat \<times> world" where
  "send req w = (length (requests w), w\<lparr>requests := requests w @ [req]\<rparr>)"

definition receive :: "nat \<Rightarrow> world \<Rightarrow> fetch_result \<times> world" where
  "receive i w = (net w i, w\<lparr>clock := clock w + int (latency w i)\<rparr>)"

text \<open>\<open>await fetch(url, { headers })\<close>, when nothing else runs in between.\<close>

definition fetch :: "request \<Rightarrow> world \<Rightarrow> fetch_result \<times> world" where
  "fetch req w = (case send req w of (i, w') \<Rightarrow> receive i w')"

text \<open>
  \<open>retry(fn, {retries: n})\<close> of the async-retry package: \<open>fn\<close> is run, and run again each
  time it throws, until it has been retried \<open>n\<close> times; the promise is then rejected with
  \<open>mainError()\<close> of the retry package, the error whose message occurred most often among
  the attempts, the latest one when several occurred equally often. Two errors of the model
  have the same message when they are equal.
\<close>

fun mainError_loop :: "error list \<Rightarrow> error list \<Rightarrow> error option \<Rightarrow> nat \<Rightarrow> error option" where
  "mainError_loop [] seen mainError mainErrorCount = mainError"
| "mainError_loop (e # es) seen mainError mainErrorCount =
     (if mainErrorCount \<le> Suc (count_list seen e)
      then mainError_loop es (e # seen) (Some e) (Suc (count_list seen e))
      else mainError_loop es (e # seen) mainError mainErrorCount)"

definition mainError :: "error list \<Rightarrow> error option" where
  "mainError errors = mainError_loop errors [] None 0"

text \<open>The error that rejects the promise after the last attempt failed with \<open>e\<close>.\<close>

definition surfaced :: "error list \<Rightarrow> error \<Rightarrow> error" where
  "surfaced errors e = (case mainError (errors @ [e]) of None \<Rightarrow> e | Some m \<Rightarrow> m)"

fun retry_from ::
  "nat \<Rightarrow> error list \<Rightarrow> (world \<Rightarrow> (error + 'a) \<times> world) \<Rightarrow> world \<Rightarrow> (error + 'a) \<times> world" where
  "retry_from 0 errors fn w =
     (case fn w of
        (Inr r, w') \<Rightarrow> (Inr r, w')
      | (Inl e, w') \<Rightarrow> (Inl (surfaced errors e), w'))"
| "retry_from (Suc n) errors fn w =
     (case fn w of
        (Inr r, w') \<Rightarrow> (Inr r, w')
      | (Inl e, w') \<Rightarrow> retry_from n (errors @ [e]) fn w')"

definition retry :: "nat \<Rightarrow> (world \<Rightarrow> (error + 'a) \<times> world) \<Rightarrow> world \<Rightarrow> (error + 'a) \<times> world" where
  "retry n fn w = retry_from n [] fn w"

section \<open>Refreshing the cache (cache.js, refreshCache)\<close>

definition token_set :: "config \<Rightarrow> bool" where
  "token_set cfg = (case token cfg of None \<Rightarrow> False | Some t \<Rightarrow> t \<noteq> [])"

definition releases_request :: "config \<Rightarrow> request" where
  "releases_request cfg =
     \<lparr>request_url = ''https://api.github.com/repos/'' @ account cfg @ ''/'' @ repository cfg
        @ ''/releases?per_page=100'',
      authorization = (if token_set cfg then map_option (\<lambda>t. ''token '' @ t) (token cfg) else None)\<rparr>"

text \<open>
  What one attempt makes of the answer (lines 89 to 95): an error unless the status is 200.
\<close>

definition outcome :: "fetch_result \<Rightarrow> error + json" where
  "outcome res =
     (case res of
        Rejected msg \<Rightarrow> Inl (FetchError msg)
      | Response status b \<Rightarrow> if status \<noteq> 200 then Inl (GitHubStatus status) else Inr b)"

definition attempt :: "config \<Rightarrow> world \<Rightarrow> (error + json) \<times> world" where
  "attempt cfg w = (case fetch (releases_request cfg) w of (res, w') \<Rightarrow> (outcome res, w'))"

text \<open>
  The body of the \<open>forEach\<close> (lines 110 to 122) on one release and the object built so far.
  \<open>semver.gt\<close> throws on an invalid version, and on the \<open>undefined\<close> tag of an inherited
  property.
\<close>

definition select_release ::
  "raw_release \<Rightarrow> (string \<rightharpoonup> raw_release) \<Rightarrow> error + (string \<rightharpoonup> raw_release)" where
  "select_release rel latest =
     (let tagName = tag_name rel in
      if tagName = [] \<or> assets rel = None then Inr latest
      else
        (case get_property latest (environmentName tagName) of
           Own cur \<Rightarrow>
             (case gt tagName (tag_name cur) of
                None \<Rightarrow> Inl InvalidVersion
              | Some True \<Rightarrow> Inr (latest(environmentName tagName \<mapsto> rel))
              | Some False \<Rightarrow> Inr latest)
         | Inherited \<Rightarrow> Inl InvalidVersion
         | Undefined \<Rightarrow> Inr (latest(environmentName tagName \<mapsto> rel))))"

fun forEach_release ::
  "raw_release list \<Rightarrow> (string \<rightharpoonup> raw_release) \<Rightarrow> error + (string \<rightharpoonup> raw_release)" where
  "forEach_release [] latest = Inr latest"
| "forEach_release (rel # rels) latest =
     (case select_release rel latest of
        Inl e \<Rightarrow> Inl e
      | Inr latest' \<Rightarrow> forEach_release rels latest')"

text \<open>
  Lines 130 to 146: an asset becomes an entry of the platform table unless
  \<open>checkPlatform(name)\<close> is falsy (\<open>false\<close>, here \<open>None\<close>, or the empty string).
  \<open>checkPlatform\<close> is the function of \<open>./platform\<close>, a parameter of the model.
\<close>

definition platform_entry :: "(string \<Rightarrow> string option) \<Rightarrow> raw_asset \<Rightarrow> (string \<times> asset) option" where
  "platform_entry checkPlatform a =
     (case checkPlatform (name a) of
        None \<Rightarrow> None
      | Some platform \<Rightarrow>
          if platform = [] then None
          else Some (platform,
            \<lparr>asset_name = name a, api_url = url a, asset_url = browser_download_url a,
             asset_content_type = content_type a,
             asset_size = (size_bytes a + 50000) div 100000\<rparr>))"

text \<open>\<open>Object.fromEntries\<close>: of two entries with the same key, the later one stays.\<close>

definition fromEntries :: "(string \<times> 'a) list \<Rightarrow> (string \<rightharpoonup> 'a)" where
  "fromEntries entries = map_of (rev entries)"

text \<open>
  Lines 127 to 163 for one retained release: its cache entry, or \<open>None\<close> when no asset
  has a platform. Every release the loop retains has an asset list (line 111).
\<close>

definition platform_entries :: "(string \<Rightarrow> string option) \<Rightarrow> raw_release \<Rightarrow> (string \<times> asset) list" where
  "platform_entries checkPlatform rel =
     List.map_filter (platform_entry checkPlatform) (case assets rel of None \<Rightarrow> [] | Some xs \<Rightarrow> xs)"

definition cache_entry :: "(string \<Rightarrow> string option) \<Rightarrow> raw_release \<Rightarrow> release option" where
  "cache_entry checkPlatform rel =
     (if platform_entries checkPlatform rel = [] then None
      else Some \<lparr>release_version = tag_name rel, release_notes = body rel, pub_date = published_at rel,
        platforms = fromEntries (platform_entries checkPlatform rel)\<rparr>)"

definition build_index ::
  "(string \<Rightarrow> string option) \<Rightarrow> (string \<rightharpoonup> raw_release) \<Rightarrow> (string \<rightharpoonup> release)" where
  "build_index checkPlatform latest =
     (\<lambda>env. case latest env of None \<Rightarrow> None | Some rel \<Rightarrow> cache_entry checkPlatform rel)"

text \<open>Lines 106 to 165: the index built from the releases of a response.\<close>

definition index_releases ::
  "(string \<Rightarrow> string option) \<Rightarrow> raw_release list \<Rightarrow> error + (string \<rightharpoonup> release)" where
  "index_releases checkPlatform data =
     (case forEach_release (filter (\<lambda>rel. \<not> draft rel) data) Map.empty of
        Inl e \<Rightarrow> Inl e
      | Inr latest \<Rightarrow> Inr (build_index checkPlatform latest))"

text \<open>
  Lines 100 to 167, what \<open>refreshCache\<close> does with the response it obtained: it returns
  early on a value that is not a non-empty array, and otherwise replaces the index and sets
  \<open>lastUpdate\<close>.
\<close>

definition store_releases ::
  "(string \<Rightarrow> string option) \<Rightarrow> json \<Rightarrow> cache \<Rightarrow> world \<Rightarrow> (error + unit) \<times> cache \<times> world" where
  "store_releases checkPlatform b c w =
     (case b of
        NotJson \<Rightarrow> (Inl InvalidJson, c, w)
      | NotArray \<Rightarrow> (Inr (), c, w)
      | Releases data \<Rightarrow>
          if data = [] then (Inr (), c, w)
          else
            (case index_releases checkPlatform data of
               Inl e \<Rightarrow> (Inl e, c, w)
             | Inr idx \<Rightarrow>
                 (Inr (), c\<lparr>latestReleaseByEnvironment := idx, lastUpdate := Some (clock w)\<rparr>, w)))"

definition refreshCache ::
  "config \<Rightarrow> (string \<Rightarrow> string option) \<Rightarrow> cache \<Rightarrow> world \<Rightarrow> (error + unit) \<times> cache \<times> world" where
  "refreshCache cfg checkPlatform c w =
     (case retry 3 (attempt cfg) w of
        (Inl e, w') \<Rightarrow> (Inl e, c, w')
      | (Inr b, w') \<Rightarrow> store_releases checkPlatform b c w')"

section \<open>Reading the cache (cache.js, isOutdated and loadCache)\<close>

text \<open>\<open>ms(`${interval}m`)\<close> for a whole number of minutes.\<close>

definition ms_minutes :: "int \<Rightarrow> int" where
  "ms_minutes n = n * 60000"

text \<open>A timestamp is falsy when it is \<open>null\<close> or \<open>0\<close>.\<close>

definition truthy :: "int option \<Rightarrow> bool" where
  "truthy t = (case t of None \<Rightarrow> False | Some n \<Rightarrow> n \<noteq> 0)"

definition isOutdated :: "config \<Rightarrow> cache \<Rightarrow> world \<Rightarrow> bool" where
  "isOutdated cfg c w =
     (case lastUpdate c of
        None \<Rightarrow> False
      | Some t \<Rightarrow>
          t \<noteq> 0 \<and> clock w - t > ms_minutes (case interval cfg of None \<Rightarrow> 15 | Some i \<Rightarrow> i))"

definition loadCache ::
  "config \<Rightarrow> (string \<Rightarrow> string option) \<Rightarrow> cache \<Rightarrow> world \<Rightarrow>
     (error + (string \<rightharpoonup> release)) \<times> cache \<times> world" where
  "loadCache cfg checkPlatform c w =
     (if \<not> truthy (lastUpdate c) \<or> isOutdated cfg c w then
        (case refreshCache cfg checkPlatform c w of
           (Inl e, c', w') \<Rightarrow> (Inl e, c', w')
         | (Inr _, c', w') \<Rightarrow> (Inr (latestReleaseByEnvironment c'), c', w'))
      else (Inr (latestReleaseByEnvironment c), c, w))"

text \<open>The constructor (lines 12 to 38): the configuration checks and the empty cache.\<close>

definition new_cache :: "config \<Rightarrow> error + cache" where
  "new_cache cfg =
     (if account cfg = [] \<or> repository cfg = [] then Inl MissingConfiguration
      else if token_set cfg \<and> (base_url cfg = None \<or> base_url cfg = Some []) then Inl MissingConfiguration
      else Inr \<lparr>lastUpdate = None, latestReleaseByEnvironment = Map.empty\<rparr>)"

section \<open>The update check (routes.js, update)\<close>

record payload =
  payload_name :: string
  payload_notes :: string
  payload_pub_date :: string
  payload_url :: "string option"

text \<open>
  What the handler answers: 204, 200 with a payload, 500 with an error code, or an
  exception that leaves the handler.
\<close>

datatype reply = NoContent | UpdateAvailable payload | Invalid string | Thrown error

text \<open>
  Lines 155 to 177, on the snapshot that \<open>loadCache\<close> returned. \<open>platform\<close> is the
  truthy result of \<open>checkAlias\<close>. An inherited property is truthy and has neither
  \<open>platforms\<close> nor \<open>url\<close>.
\<close>

definition decide ::
  "config \<Rightarrow> (string \<rightharpoonup> release) \<Rightarrow> string \<Rightarrow> string \<Rightarrow> string \<Rightarrow> reply" where
  "decide cfg snapshot platformName platform version =
     (case get_property snapshot (environmentName version) of
        Undefined \<Rightarrow> NoContent
      | Inherited \<Rightarrow> Thrown TypeError
      | Own rel \<Rightarrow>
          (case get_property (platforms rel) platform of
             Undefined \<Rightarrow> NoContent
           | found \<Rightarrow>
               (case compare (release_version rel) version of
                  None \<Rightarrow> Thrown InvalidVersion
                | Some c \<Rightarrow>
                    if c = 1 then
                      UpdateAvailable
                        \<lparr>payload_name = release_version rel, payload_notes = release_notes rel,
                         payload_pub_date = pub_date rel,
                         payload_url =
                           (if token_set cfg then
                              Some ((case base_url cfg of None \<Rightarrow> ''undefined'' | Some u \<Rightarrow> u)
                                @ ''/download/'' @ platformName
                                @ ''?update=true&environment='' @ environmentName version)
                            else (case found of Own a \<Rightarrow> Some (asset_url a) | _ \<Rightarrow> None))\<rparr>
                    else NoContent)))"

text \<open>
  The handler (lines 129 to 178). \<open>checkAlias\<close> is the function of \<open>./aliases\<close>, a
  parameter of the model; its result is falsy when it is \<open>None\<close> or the empty string.
\<close>

definition update ::
  "config \<Rightarrow> (string \<Rightarrow> string option) \<Rightarrow> (string \<Rightarrow> string option) \<Rightarrow> cache \<Rightarrow> world \<Rightarrow>
     string \<Rightarrow> string \<Rightarrow> reply \<times> cache \<times> world" where
  "update cfg checkAlias checkPlatform c w platformName version =
     (if \<not> valid version then (Invalid ''version_invalid'', c, w)
      else
        (case checkAlias platformName of
           None \<Rightarrow> (Invalid ''invalid_platform'', c, w)
         | Some platform \<Rightarrow>
             if platform = [] then (Invalid ''invalid_platform'', c, w)
             else
               (case loadCache cfg checkPlatform c w of
                  (Inl e, c', w') \<Rightarrow> (Thrown e, c', w')
                | (Inr snapshot, c', w') \<Rightarrow>
                    (decide cfg snapshot platformName platform version, c', w'))))"

section \<open>Concurrent calls of loadCache\<close>

text \<open>
  A call of the asynchronous \<open>loadCache\<close> runs until its next \<open>await\<close> and is then
  suspended; other calls run in between. The phases of one call:
  \<^item> \<open>Called\<close>: not started yet;
  \<^item> \<open>Fetching n errors i\<close>: inside \<open>retry\<close>, waiting for the answer to request
    \<open>i\<close>, with \<open>n\<close> retries left and the errors of the earlier attempts;
  \<^item> \<open>Backoff n errors\<close>: inside \<open>retry\<close>, waiting to try again, with \<open>n\<close> retries
    left after that;
  \<^item> \<open>Parsing b\<close>: waiting for \<open>response.json()\<close>;
  \<^item> \<open>Resuming\<close>: \<open>refreshCache\<close> has returned, \<open>loadCache\<close> has not yet continued;
  \<^item> \<open>Returned r\<close>: finished with the result \<open>r\<close>.
\<close>

datatype phase =
  Called
  | Fetching nat "error list" nat
  | Backoff nat "error list"
  | Parsing json
  | Resuming
  | Returned "error + (string \<rightharpoonup> release)"

text \<open>One call runs from its present phase to its next suspension.\<close>

definition step_phase ::
  "config \<Rightarrow> (string \<Rightarrow> string option) \<Rightarrow> phase \<Rightarrow> cache \<Rightarrow> world \<Rightarrow> phase \<times> cache \<times> world" where
  "step_phase cfg checkPlatform ph c w =
     (case ph of
        Called \<Rightarrow>
          if \<not> truthy (lastUpdate c) \<or> isOutdated cfg c w then
            (case send (releases_request cfg) w of (i, w') \<Rightarrow> (Fetching 3 [] i, c, w'))
          else (Returned (Inr (latestReleaseByEnvironment c)), c, w)
      | Fetching n errors i \<Rightarrow>
          (case receive i w of
             (res, w') \<Rightarrow>
               (case outcome res of
                  Inr b \<Rightarrow> (Parsing b, c, w')
                | Inl e \<Rightarrow>
                    (case n of
                       0 \<Rightarrow> (Returned (Inl (surfaced errors e)), c, w')
                     | Suc m \<Rightarrow> (Backoff m (errors @ [e]), c, w'))))
      | Backoff n errors \<Rightarrow>
          (case send (releases_request cfg) w of (i, w') \<Rightarrow> (Fetching n errors i, c, w'))
      | Parsing b \<Rightarrow>
          (case store_releases checkPlatform b c w of
             (Inl e, c', w') \<Rightarrow> (Returned (Inl e), c', w')
           | (Inr _, c', w') \<Rightarrow> (Resuming, c', w'))
      | Resuming \<Rightarrow> (Returned (Inr (latestReleaseByEnvironment c)), c, w)
      | Returned r \<Rightarrow> (Returned r, c, w))"

text \<open>The cache object, the world, and the calls in progress.\<close>

record system =
  shared :: cache
  outside :: world
  calls :: "phase list"

definition step_call :: "config \<Rightarrow> (string \<Rightarrow> string option) \<Rightarrow> nat \<Rightarrow> system \<Rightarrow> system" where
  "step_call cfg checkPlatform i s =
     (if i < length (calls s) then
        (case step_phase cfg checkPlatform (calls s ! i) (shared s) (outside s) of
           (ph, c, w) \<Rightarrow> \<lparr>shared = c, outside = w, calls = (calls s)[i := ph]\<rparr>)
      else s)"

text \<open>A schedule names, in order, the call that runs next.\<close>

fun run :: "config \<Rightarrow> (string \<Rightarrow> string option) \<Rightarrow> nat list \<Rightarrow> system \<Rightarrow> system" where
  "run cfg checkPlatform [] s = s"
| "run cfg checkPlatform (i # sched) s = run cfg checkPlatform sched (step_call cfg checkPlatform i s)"

text \<open>A call that has returned, and a call that is in the middle of a refresh.\<close>

definition finished :: "phase \<Rightarrow> bool" where
  "finished ph = (case ph of Returned r \<Rightarrow> True | _ \<Rightarrow> False)"

definition in_flight :: "phase \<Rightarrow> bool" where
  "in_flight ph =
     (case ph of
        Fetching n errors i \<Rightarrow> True
      | Backoff n errors \<Rightarrow> True
      | Parsing b \<Rightarrow> True
      | _ \<Rightarrow> False)"

section \<open>Notions used in the statements\<close>

subsection \<open>The order of versions\<close>

text \<open>The three-valued comparison of a linear order.\<close>

definition ord3 :: "'a::linorder \<Rightarrow> 'a \<Rightarrow> int" where
  "ord3 a b = (if a < b then - 1 else if b < a then 1 else 0)"

text \<open>
  A key for each identifier under which \<open>compareIdentifiers\<close> is that comparison: a
  numeric identifier is below any other, numeric ones are ordered by their doubles, the
  others as strings.
\<close>

fun ident_key :: "ident \<Rightarrow> bool \<times> int \<times> string" where
  "ident_key (Num n) = (False, n, [])"
| "ident_key (Str s) = (if numeric s then (False, to_double (to_number s), []) else (True, 0, s))"

text \<open>
  The precedence of Semantic Versioning itself: identifiers of digits are compared as the
  numbers they denote, exactly; the others as strings; a numeric identifier is below any
  other; of two lists of identifiers where one is the beginning of the other, the shorter
  is below; and a version without prerelease identifiers is above the same version with
  some.
\<close>

fun exact_key :: "ident \<Rightarrow> bool \<times> int \<times> string" where
  "exact_key (Num n) = (False, n, [])"
| "exact_key (Str s) = (if numeric s then (False, to_number s, []) else (True, 0, s))"

definition precedence :: "semver \<Rightarrow> semver \<Rightarrow> int" where
  "precedence x y =
     ord3 (major x, minor x, patch x, prerelease x = [], map exact_key (prerelease x))
          (major y, minor y, patch y, prerelease y = [], map exact_key (prerelease y))"

definition exact_compare :: "string \<Rightarrow> string \<Rightarrow> int option" where
  "exact_compare a b =
     (case semver_new a of None \<Rightarrow> None
      | Some x \<Rightarrow> (case semver_new b of None \<Rightarrow> None | Some y \<Rightarrow> Some (precedence x y)))"

text \<open>
  A version is \<open>small\<close> when none of its prerelease identifiers is a string of digits,
  that is when every numeric one is below \<open>MAX_SAFE_INTEGER\<close> and was turned into a number.
  A tag is small when it is no version or a small one.
\<close>

definition small :: "semver \<Rightarrow> bool" where
  "small x = list_all (\<lambda>i. case i of Num n \<Rightarrow> True | Str s \<Rightarrow> \<not> numeric s) (prerelease x)"

definition small_tag :: "string \<Rightarrow> bool" where
  "small_tag t = (case semver_new t of None \<Rightarrow> True | Some x \<Rightarrow> small x)"

text \<open>
  \<open>newer a b\<close>: both strings are versions and \<open>compare\<close> puts \<open>a\<close> strictly above
  \<open>b\<close>; \<open>not_older a b\<close>: both are versions and \<open>compare\<close> does not put \<open>a\<close> below
  \<open>b\<close>.
\<close>

definition newer :: "string \<Rightarrow> string \<Rightarrow> bool" where
  "newer a b = (compare a b = Some 1)"

definition not_older :: "string \<Rightarrow> string \<Rightarrow> bool" where
  "not_older a b = (case compare a b of None \<Rightarrow> False | Some c \<Rightarrow> 0 \<le> c)"

text \<open>
  What \<open>mainError()\<close> returns, said without the loop: \<open>m\<close> occurs in the list at least as
  often as every other error, and after the last occurrence of \<open>m\<close> there are only errors
  that occur less often; so \<open>m\<close> is the latest of the errors that occur most often.
\<close>

definition most_often_latest :: "error list \<Rightarrow> error \<Rightarrow> bool" where
  "most_often_latest es m =
     ((\<forall>e. count_list es e \<le> count_list es m) \<and>
      (\<exists>pre post. es = pre @ m # post \<and> m \<notin> set post \<and>
         (\<forall>e\<in>set post. count_list es e < count_list es m)))"

subsection \<open>Releases that take part in the selection\<close>

text \<open>
  A release reaches the comparison of the loop when it is not a draft and has a tag and an
  asset list (lines 108 and 111). \<open>considered env\<close> is the same for a list from which the
  drafts are already removed, restricted to one environment.
\<close>

definition candidate :: "raw_release \<Rightarrow> bool" where
  "candidate rel = (\<not> draft rel \<and> tag_name rel \<noteq> [] \<and> assets rel \<noteq> None)"

definition considered :: "string \<Rightarrow> raw_release \<Rightarrow> bool" where
  "considered env rel =
     (tag_name rel \<noteq> [] \<and> assets rel \<noteq> None \<and> environmentName (tag_name rel) = env)"

definition candidates :: "string \<Rightarrow> raw_release list \<Rightarrow> raw_release list" where
  "candidates env data =
     filter (\<lambda>rel. candidate rel \<and> environmentName (tag_name rel) = env) data"

text \<open>
  \<open>first_greatest rs r\<close>: \<open>r\<close> occurs in \<open>rs\<close>, everything before that occurrence is
  strictly older and everything after it is not newer.
\<close>

definition first_greatest :: "raw_release list \<Rightarrow> raw_release \<Rightarrow> bool" where
  "first_greatest rs r =
     (\<exists>pre post. rs = pre @ r # post \<and>
        (\<forall>x\<in>set pre. newer (tag_name r) (tag_name x)) \<and>
        (\<forall>x\<in>set post. not_older (tag_name r) (tag_name x)))"

text \<open>
  \<open>greatest rs r\<close>: \<open>r\<close> occurs in \<open>rs\<close> and is not older than anything before or after
  that occurrence. When \<open>r\<close> is all of \<open>rs\<close> this asks nothing of its tag.
\<close>

definition greatest :: "raw_release list \<Rightarrow> raw_release \<Rightarrow> bool" where
  "greatest rs r =
     (\<exists>pre post. rs = pre @ r # post \<and>
        (\<forall>x\<in>set pre \<union> set post. not_older (tag_name r) (tag_name x)))"

text \<open>The version and the notes that the index built from \<open>data\<close> holds for \<open>env\<close>.\<close>

definition indexed ::
  "(string \<Rightarrow> string option) \<Rightarrow> raw_release list \<Rightarrow> string \<Rightarrow> (string \<times> string) option" where
  "indexed checkPlatform data env =
     (case index_releases checkPlatform data of
        Inl e \<Rightarrow> None
      | Inr idx \<Rightarrow> map_option (\<lambda>rel. (release_version rel, release_notes rel)) (idx env))"

subsection \<open>Platform tables\<close>

definition resolves :: "(string \<Rightarrow> string option) \<Rightarrow> string \<Rightarrow> bool" where
  "resolves checkPlatform n = (case checkPlatform n of None \<Rightarrow> False | Some p \<Rightarrow> p \<noteq> [])"

text \<open>
  Every entry of the index has a platform table that is not empty and lists only assets
  whose file name resolves, each under the key it resolves to.
\<close>

definition platform_filtered :: "(string \<Rightarrow> string option) \<Rightarrow> (string \<rightharpoonup> release) \<Rightarrow> bool" where
  "platform_filtered checkPlatform idx =
     (\<forall>env rel. idx env = Some rel \<longrightarrow>
        platforms rel \<noteq> Map.empty \<and>
        (\<forall>p a. platforms rel p = Some a \<longrightarrow>
           resolves checkPlatform (asset_name a) \<and> checkPlatform (asset_name a) = Some p))"

subsection \<open>Results\<close>

text \<open>The error of a result, if it is one.\<close>

definition failure :: "error + 'a \<Rightarrow> error option" where
  "failure r = (case r of Inl e \<Rightarrow> Some e | Inr x \<Rightarrow> None)"

text \<open>The version that a reply offers, if it offers one.\<close>

definition offered :: "reply \<Rightarrow> string option" where
  "offered r = (case r of UpdateAvailable p \<Rightarrow> Some (payload_name p) | _ \<Rightarrow> None)"

subsection \<open>The network\<close>

text \<open>What an attempt makes of the answer to the \<open>k\<close>-th request sent from now on.\<close>

definition answer :: "world \<Rightarrow> nat \<Rightarrow> error + json" where
  "answer w k = outcome (net w (length (requests w) + k))"

subsection \<open>The environment of a version\<close>

text \<open>The text between the first hyphen and the next one, empty when there is no hyphen.\<close>

definition segment :: "string \<Rightarrow> string" where
  "segment version =
     takeWhile (\<lambda>x. x \<noteq> CHR ''-'') (drop 1 (dropWhile (\<lambda>x. x \<noteq> CHR ''-'') version))"

subsection \<open>Systems of calls\<close>

text \<open>
  \<open>started cfg c w n k\<close>: of \<open>n\<close> calls the first \<open>k\<close> have sent their request and wait
  for the answer. \<open>single c w ph\<close>: one call in phase \<open>ph\<close>. \<open>finish\<close>: where a single
  call ends after \<open>retry\<close> has come back with \<open>rw\<close>.
\<close>

definition started :: "config \<Rightarrow> cache \<Rightarrow> world \<Rightarrow> nat \<Rightarrow> nat \<Rightarrow> system" where
  "started cfg c w n k =
     \<lparr>shared = c,
      outside = w\<lparr>requests := requests w @ replicate k (releases_request cfg)\<rparr>,
      calls = map (\<lambda>i. Fetching 3 [] (length (requests w) + i)) [0..<k] @ replicate (n - k) Called\<rparr>"

definition single :: "cache \<Rightarrow> world \<Rightarrow> phase \<Rightarrow> system" where
  "single c w ph = \<lparr>shared = c, outside = w, calls = [ph]\<rparr>"

definition finish :: "(string \<Rightarrow> string option) \<Rightarrow> (error + json) \<times> world \<Rightarrow> cache \<Rightarrow> system" where
  "finish checkPlatform rw c =
     (case rw of
        (Inl e, w') \<Rightarrow> single c w' (Returned (Inl e))
      | (Inr b, w') \<Rightarrow>
          (case store_releases checkPlatform b c w' of
             (Inl e, c', w'') \<Rightarrow> single c' w'' (Returned (Inl e))
           | (Inr u, c', w'') \<Rightarrow> single c' w'' (Returned (Inr (latestReleaseByEnvironment c')))))"

section \<open>Examples\<close>

text \<open>
  A resolver and an alias table for the examples: they know the two file names
  \<open>app-win.exe\<close> and \<open>app-mac.dmg\<close> and the alias \<open>win\<close>, and keep the platform
  keys \<open>exe\<close> and \<open>dmg\<close>.
\<close>

definition example_platform :: "string \<Rightarrow> string option" where
  "example_platform n =
     (if n = ''app-win.exe'' then Some ''exe''
      else if n = ''app-mac.dmg'' then Some ''dmg'' else None)"

definition example_alias :: "string \<Rightarrow> string option" where
  "example_alias a =
     (if a = ''win'' \<or> a = ''exe'' then Some ''exe'' else if a = ''dmg'' then Some ''dmg'' else None)"

definition example_config :: config where
  "example_config =
     \<lparr>account = ''belay-labs'', repository = ''app'', token = None, base_url = None,
      interval = None\<rparr>"

definition example_asset :: "string \<Rightarrow> raw_asset" where
  "example_asset n =
     \<lparr>name = n, browser_download_url = ''https://example.com/'' @ n,
      url = ''https://api.example.com/'' @ n, content_type = ''application/octet-stream'',
      size_bytes = 52428800\<rparr>"

definition example_release :: "string \<Rightarrow> string \<Rightarrow> string \<Rightarrow> raw_release" where
  "example_release tag file text =
     \<lparr>draft = False, tag_name = tag, assets = Some [example_asset file], body = text,
      published_at = ''2024-01-01T00:00:00Z''\<rparr>"

text \<open>
  Five releases: three of production, the newest in the middle, one draft with a higher
  version, and one of the beta channel.
\<close>

definition example_data :: "raw_release list" where
  "example_data =
     [example_release ''v1.1.0'' ''app-win.exe'' ''one'',
      (example_release ''v9.9.9'' ''app-win.exe'' ''draft'')\<lparr>draft := True\<rparr>,
      example_release ''v1.2.0'' ''app-win.exe'' ''two'',
      example_release ''v1.1.0-beta'' ''app-mac.dmg'' ''beta'',
      example_release ''v1.0.0'' ''app-win.exe'' ''zero'']"

text \<open>A world with the given answers, no request sent yet, and the given time.\<close>

definition example_world :: "(nat \<Rightarrow> fetch_result) \<Rightarrow> int \<Rightarrow> world" where
  "example_world answers now =
     \<lparr>net = answers, latency = (\<lambda>i. 100), requests = [], clock = now\<rparr>"

definition empty_cache :: cache where
  "empty_cache = \<lparr>lastUpdate = None, latestReleaseByEnvironment = Map.empty\<rparr>"

text \<open>The cache after a first refresh at time 1000 that obtained \<open>example_data\<close>.\<close>

definition populated_cache :: cache where
  "populated_cache =
     fst (snd (refreshCache example_config example_platform empty_cache
       (example_world (\<lambda>i. Response 200 (Releases example_data)) 1000)))"

text \<open>A network that answers every request with status 500, at a time when the cache is stale.\<close>

definition down_world :: world where
  "down_world = example_world (\<lambda>i. Response 500 NotArray) 2000000"

text \<open>The same network five minutes after the refresh.\<close>

definition fresh_world :: world where
  "fresh_world = example_world (\<lambda>i. Response 500 NotArray) 301100"

text \<open>Three answers with status 500, then the releases.\<close>

definition recovering_world :: world where
  "recovering_world =
     example_world (\<lambda>i. if i < 3 then Response 500 NotArray else Response 200 (Releases example_data)) 1000"

text \<open>Four failures with the statuses 500, 502, 502 and 503.\<close>

definition mixed_world :: world where
  "mixed_world =
     example_world
       (\<lambda>i. Response (if i = 0 then 500 else if i = 1 then 502 else if i = 2 then 502 else 503)
          NotArray) 1000"

text \<open>A release whose tag is not a version.\<close>

definition nightly_data :: "raw_release list" where
  "nightly_data = [example_release ''nightly'' ''app-win.exe'' ''built last night'']"

text \<open>Two releases whose versions compare equal.\<close>

definition tie_data :: "raw_release list" where
  "tie_data =
     [example_release ''v1.0.0'' ''app-win.exe'' ''first'',
      example_release ''1.0.0'' ''app-win.exe'' ''second'']"

text \<open>A beta release whose only asset has no platform.\<close>

definition absent_data :: "raw_release list" where
  "absent_data =
     [example_release ''v1.2.0'' ''app-win.exe'' ''two'',
      example_release ''v1.3.0-beta'' ''notes.txt'' ''beta'']"

definition absent_world :: world where
  "absent_world = example_world (\<lambda>i. Response 200 (Releases absent_data)) 1000"

text \<open>A network that answers with an empty array.\<close>

definition quiet_world :: world where
  "quiet_world = example_world (\<lambda>i. Response 200 (Releases [])) 1000"

text \<open>
  Tags with a numeric prerelease identifier from two to the power 53 on: the numbers 992
  and 993 at the end of the identifier are the same double.
\<close>

definition rounded_data :: "raw_release list" where
  "rounded_data =
     [example_release ''v1.0.0-beta-x.9007199254740992'' ''app-win.exe'' ''first'',
      example_release ''v1.0.0-beta-x.9007199254740993'' ''app-win.exe'' ''second'']"

definition rounded_tie_data :: "raw_release list" where
  "rounded_tie_data =
     [example_release ''v1.0.0-beta-x.9007199254740993.1'' ''app-win.exe'' ''first'',
      example_release ''v1.0.0-beta-x.9007199254740992.0'' ''app-win.exe'' ''second'',
      example_release ''v1.0.0-beta-x.9007199254740993.2'' ''app-win.exe'' ''third'']"

text \<open>A network that answers with the second of them only.\<close>

definition rounded_world :: world where
  "rounded_world =
     example_world (\<lambda>i. Response 200 (Releases
       [example_release ''v1.0.0-beta-x.9007199254740993'' ''app-win.exe'' ''second''])) 1000"


section \<open>The comparison of versions\<close>

subsection \<open>What holds of all versions\<close>

lemma compareNumber_key: "compareNumber a b = ord3 a b"
  by (simp add: compareNumber_def ord3_def)

lemma compareIdentifiers_key: "compareIdentifiers a b = ord3 (ident_key a) (ident_key b)"
  by (cases a; cases b) (auto simp: ord3_def compareNumber_def)

lemma compareIdentifiers_refl: "compareIdentifiers a a = 0"
  by (simp add: compareIdentifiers_key ord3_def)

lemma compareIdentifiers_flip: "compareIdentifiers a b = - compareIdentifiers b a"
  by (auto simp: compareIdentifiers_key ord3_def)

lemma compareIdentifiers_range: "compareIdentifiers a b \<in> {- 1, 0, 1}"
  by (auto simp: compareIdentifiers_key ord3_def)

lemma compareIdentifiers_trans:
  "compareIdentifiers a b = 1 \<Longrightarrow> compareIdentifiers b c = 1 \<Longrightarrow> compareIdentifiers a c = 1"
  by (auto simp: compareIdentifiers_key ord3_def split: if_splits)

lemma compareIdentifiers_neq: "compareIdentifiers a b = 1 \<Longrightarrow> a \<noteq> b"
  using compareIdentifiers_refl [of a] by auto

lemma comparePreLoop_refl: "comparePreLoop xs xs = 0"
  by (induction xs) simp_all

lemma comparePreLoop_flip: "comparePreLoop xs ys = - comparePreLoop ys xs"
proof (induction xs ys rule: comparePreLoop.induct)
  case (4 a as b bs)
  then show ?case using compareIdentifiers_flip [of a b] by auto
qed simp_all

lemma comparePreLoop_range: "comparePreLoop xs ys \<in> {- 1, 0, 1}"
proof (induction xs ys rule: comparePreLoop.induct)
  case (4 a as b bs)
  then show ?case using compareIdentifiers_range [of a b] by auto
qed simp_all

lemma comparePreLoop_trans:
  "comparePreLoop xs ys = 1 \<Longrightarrow> comparePreLoop ys zs = 1 \<Longrightarrow> comparePreLoop xs zs = 1"
proof (induction xs arbitrary: ys zs)
  case Nil
  then show ?case by (cases ys) simp_all
next
  case (Cons a as)
  show ?case
  proof (cases ys)
    case Nil
    with Cons.prems(2) show ?thesis by (cases zs) simp_all
  next
    case ys: (Cons b bs)
    show ?thesis
    proof (cases zs)
      case Nil
      then show ?thesis by simp
    next
      case zs: (Cons c cs)
      show ?thesis
      proof (cases "a = b")
        case ab: True
        show ?thesis
        proof (cases "b = c")
          case True
          with ab Cons.prems ys zs Cons.IH [of bs cs] show ?thesis by simp
        next
          case False
          with ab Cons.prems ys zs show ?thesis by simp
        qed
      next
        case ab: False
        with Cons.prems(1) ys have 1: "compareIdentifiers a b = 1" by simp
        show ?thesis
        proof (cases "b = c")
          case True
          with ab 1 zs show ?thesis by simp
        next
          case False
          with Cons.prems(2) ys zs have "compareIdentifiers b c = 1" by simp
          with 1 have 2: "compareIdentifiers a c = 1" by (rule compareIdentifiers_trans)
          with compareIdentifiers_neq [OF 2] zs show ?thesis by simp
        qed
      qed
    qed
  qed
qed

lemma comparePre_refl: "comparePre x x = 0"
  by (simp add: comparePre_def comparePreLoop_refl)

lemma comparePre_flip: "comparePre x y = - comparePre y x"
  using comparePreLoop_flip [of "prerelease x" "prerelease y"] by (auto simp: comparePre_def)

lemma comparePre_range: "comparePre x y \<in> {- 1, 0, 1}"
  using comparePreLoop_range [of "prerelease x" "prerelease y"] by (auto simp: comparePre_def)

lemma comparePre_trans:
  "comparePre x y = 1 \<Longrightarrow> comparePre y z = 1 \<Longrightarrow> comparePre x z = 1"
  using comparePreLoop_trans [of "prerelease x" "prerelease y" "prerelease z"]
  by (auto simp: comparePre_def split: if_splits)

lemma compareMain_key:
  "compareMain x y = ord3 (major x, minor x, patch x) (major y, minor y, patch y)"
  by (auto simp: compareMain_def compareNumber_def ord3_def)

lemma compare_semver_refl: "compare_semver x x = 0"
  by (simp add: compare_semver_def compareMain_key comparePre_refl ord3_def)

lemma compare_semver_flip: "compare_semver x y = - compare_semver y x"
  using comparePre_flip [of x y]
  by (auto simp: compare_semver_def compareMain_key ord3_def split: if_splits)

lemma compare_semver_range: "compare_semver x y \<in> {- 1, 0, 1}"
  using comparePre_range [of x y]
  by (auto simp: compare_semver_def compareMain_key ord3_def)

lemma compare_semver_trans:
  "compare_semver x y = 1 \<Longrightarrow> compare_semver y z = 1 \<Longrightarrow> compare_semver x z = 1"
  using comparePre_trans [of x y z]
  by (auto simp: compare_semver_def compareMain_key ord3_def split: if_splits)

lemma compare_cases:
  "compare a b = None \<or> compare a b = Some (- 1) \<or> compare a b = Some 0 \<or> compare a b = Some 1"
  using compare_semver_range by (auto simp: compare_def split: option.splits)

lemma compare_flip: "compare a b = Some c \<Longrightarrow> compare b a = Some (- c)"
proof -
  assume h: "compare a b = Some c"
  then obtain x y where xy: "semver_new a = Some x" "semver_new b = Some y" "c = compare_semver x y"
    by (auto simp: compare_def split: option.splits)
  have "compare_semver y x = - compare_semver x y" by (rule compare_semver_flip)
  with xy show ?thesis by (simp add: compare_def)
qed

lemma valid_compare_self: "valid v \<Longrightarrow> compare v v = Some 0"
  by (auto simp: valid_def compare_def compare_semver_refl)

lemma gt_True_newer: "gt a b = Some True \<longleftrightarrow> newer a b"
  using compare_cases [of a b] by (auto simp: gt_def newer_def)

lemma gt_False_not_older: "gt a b = Some False \<Longrightarrow> not_older b a"
proof -
  assume "gt a b = Some False"
  then obtain c where c: "compare a b = Some c" "\<not> 0 < c" by (auto simp: gt_def)
  from compare_flip [OF c(1)] c(2) show ?thesis by (simp add: not_older_def)
qed

lemma newer_not_older: "newer a b \<Longrightarrow> not_older a b"
  by (simp add: newer_def not_older_def)

text \<open>Strictly above is transitive for all versions.\<close>

lemma newer_newer_trans: "newer a b \<Longrightarrow> newer b c \<Longrightarrow> newer a c"
  by (auto simp: newer_def compare_def split: option.splits dest: compare_semver_trans)

text \<open>
  What is strictly above something that is not below a third thing need not be above the
  third; but it is not below it.
\<close>

lemma newer_not_older_trans: "newer a b \<Longrightarrow> not_older b c \<Longrightarrow> not_older a c"
proof -
  assume ab: "newer a b" and bc: "not_older b c"
  from ab bc obtain k where k: "compare a c = Some k"
    by (auto simp: newer_def not_older_def compare_def split: option.splits)
  have "k \<noteq> - 1"
  proof
    assume "k = - 1"
    with k have "newer c a" using compare_flip [of a c k] by (simp add: newer_def)
    with ab have "newer c b" by (blast intro: newer_newer_trans)
    then have "compare b c = Some (- 1)" using compare_flip [of c b 1] by (simp add: newer_def)
    with bc show False by (simp add: not_older_def)
  qed
  with k compare_cases [of a c] show ?thesis by (auto simp: not_older_def)
qed

subsection \<open>Small versions are compared by precedence\<close>

lemma ident_key_exact:
  "(case i of Num n \<Rightarrow> True | Str s \<Rightarrow> \<not> numeric s) \<Longrightarrow> ident_key i = exact_key i"
  by (cases i) simp_all

lemma exact_key_inj:
  "(case a of Num n \<Rightarrow> True | Str s \<Rightarrow> \<not> numeric s) \<Longrightarrow>
   (case b of Num n \<Rightarrow> True | Str s \<Rightarrow> \<not> numeric s) \<Longrightarrow>
   exact_key a = exact_key b \<longleftrightarrow> a = b"
  by (cases a; cases b) auto

lemma comparePreLoop_exact:
  "list_all (\<lambda>i. case i of Num n \<Rightarrow> True | Str s \<Rightarrow> \<not> numeric s) xs \<Longrightarrow>
   list_all (\<lambda>i. case i of Num n \<Rightarrow> True | Str s \<Rightarrow> \<not> numeric s) ys \<Longrightarrow>
   comparePreLoop xs ys = ord3 (map exact_key xs) (map exact_key ys)"
proof (induction xs ys rule: comparePreLoop.induct)
  case (4 a as b bs)
  then have sa: "case a of Num n \<Rightarrow> True | Str s \<Rightarrow> \<not> numeric s"
    and sb: "case b of Num n \<Rightarrow> True | Str s \<Rightarrow> \<not> numeric s"
    by simp_all
  show ?case
  proof (cases "a = b")
    case True
    with 4 show ?thesis by (simp add: ord3_def)
  next
    case False
    then have "exact_key a \<noteq> exact_key b" using sa sb by (simp add: exact_key_inj)
    then show ?thesis using False sa sb
      by (auto simp: compareIdentifiers_key ident_key_exact ord3_def)
  qed
qed (simp_all add: ord3_def)

lemma compare_semver_precedence:
  assumes "small x" "small y"
  shows "compare_semver x y = precedence x y"
proof -
  have "comparePre x y =
      ord3 (prerelease x = [], map exact_key (prerelease x))
           (prerelease y = [], map exact_key (prerelease y))"
    using comparePreLoop_exact [of "prerelease x" "prerelease y"] assms
    by (cases "prerelease x"; cases "prerelease y")
       (auto simp: comparePre_def small_def ord3_def)
  then show ?thesis
    unfolding compare_semver_def compareMain_key precedence_def
    by (auto simp: ord3_def)
qed

lemma compare_exact:
  assumes "small_tag a" "small_tag b"
  shows "compare a b = exact_compare a b"
proof (cases "semver_new a")
  case None
  then show ?thesis by (simp add: compare_def exact_compare_def)
next
  case a: (Some x)
  show ?thesis
  proof (cases "semver_new b")
    case None
    with a show ?thesis by (simp add: compare_def exact_compare_def)
  next
    case (Some y)
    with a assms have "small x" "small y" by (simp_all add: small_tag_def)
    then have "compare_semver x y = precedence x y" by (rule compare_semver_precedence)
    with a Some show ?thesis by (simp add: compare_def exact_compare_def)
  qed
qed

lemma ord3_gt: "ord3 a b = 1 \<longleftrightarrow> b < a"
  by (auto simp: ord3_def)

lemma ord3_ge: "0 \<le> ord3 a b \<longleftrightarrow> b \<le> a"
  by (auto simp: ord3_def)

lemma precedence_trans:
  "precedence x y = 1 \<Longrightarrow> 0 \<le> precedence y z \<Longrightarrow> precedence x z = 1"
  unfolding precedence_def ord3_gt ord3_ge by (rule le_less_trans)

text \<open>Among small versions the comparison is a linear preorder.\<close>

lemma newer_trans:
  assumes "small_tag a" "small_tag b" "small_tag c" "newer a b" "not_older b c"
  shows "newer a c"
proof -
  from assms(4) obtain x y where xy: "semver_new a = Some x" "semver_new b = Some y"
      and 1: "compare_semver x y = 1"
    by (auto simp: newer_def compare_def split: option.splits)
  from assms(5) xy obtain z where z: "semver_new c = Some z" and 2: "0 \<le> compare_semver y z"
    by (auto simp: not_older_def compare_def split: option.splits)
  from assms(1-3) xy z have s: "small x" "small y" "small z" by (simp_all add: small_tag_def)
  from 1 2 s have "precedence x y = 1" "0 \<le> precedence y z"
    by (simp_all add: compare_semver_precedence)
  then have "precedence x z = 1" by (rule precedence_trans)
  with s have "compare_semver x z = 1" by (simp add: compare_semver_precedence)
  with xy z show ?thesis by (simp add: newer_def compare_def)
qed

section \<open>What the loop over the releases retains\<close>

lemma select_release_other:
  "select_release rel m = Inr m1 \<Longrightarrow> \<not> considered e rel \<Longrightarrow> m1 e = m e"
  by (auto simp: select_release_def considered_def Let_def
      split: if_splits property.splits option.splits bool.splits)

lemma select_release_first:
  "select_release rel m = Inr m1 \<Longrightarrow> considered e rel \<Longrightarrow> m e = None \<Longrightarrow> m1 e = Some rel"
  by (auto simp: select_release_def considered_def Let_def get_property_def
      split: if_splits property.splits option.splits bool.splits)

lemma select_release_next:
  "select_release rel m = Inr m1 \<Longrightarrow> considered e rel \<Longrightarrow> m e = Some cur \<Longrightarrow>
     (newer (tag_name rel) (tag_name cur) \<and> m1 e = Some rel) \<or>
     (not_older (tag_name cur) (tag_name rel) \<and> m1 e = Some cur)"
  by (auto simp: select_release_def considered_def Let_def get_property_def gt_True_newer
      dest: gt_False_not_older
      split: if_splits property.splits option.splits bool.splits)

lemma first_greatest_here:
  "\<forall>x\<in>set rs. not_older (tag_name r) (tag_name x) \<Longrightarrow> first_greatest (r # rs) r"
  unfolding first_greatest_def by (rule exI [of _ "[]"]) simp

lemma first_greatest_later:
  "first_greatest rs r \<Longrightarrow> newer (tag_name r) (tag_name x) \<Longrightarrow> first_greatest (x # rs) r"
  unfolding first_greatest_def
  apply (elim exE conjE)
  subgoal for pre post by (rule exI [of _ "x # pre"]) auto
  done

lemma first_greatest_mem: "first_greatest rs r \<Longrightarrow> r \<in> set rs"
  by (auto simp: first_greatest_def)

lemma greatest_here:
  "\<forall>x\<in>set rs. not_older (tag_name r) (tag_name x) \<Longrightarrow> greatest (r # rs) r"
  unfolding greatest_def by (rule exI [of _ "[]"]) simp

lemma greatest_later:
  "greatest rs r \<Longrightarrow> not_older (tag_name r) (tag_name x) \<Longrightarrow> greatest (x # rs) r"
  unfolding greatest_def
  apply (elim exE conjE)
  subgoal for pre post by (rule exI [of _ "x # pre"]) auto
  done

lemma greatest_mem: "greatest rs r \<Longrightarrow> r \<in> set rs"
  by (auto simp: greatest_def)

lemma greatest_max:
  "greatest rs r \<Longrightarrow> x \<in> set rs \<Longrightarrow> x = r \<or> not_older (tag_name r) (tag_name x)"
  by (auto simp: greatest_def)

lemma greatest_single: "greatest [x] r \<Longrightarrow> r = x"
  by (auto simp: greatest_def Cons_eq_append_conv)

text \<open>
  The invariant of the loop, for one environment \<open>e\<close> and for all tags: the entry of \<open>e\<close>
  is among the releases of \<open>e\<close> seen so far and not older than any of them, the entry the
  loop started with counting as seen before all of them. This needs of the comparison
  only that strictly above is transitive.
\<close>

lemma forEach_release_greatest:
  "forEach_release rs m = Inr m' \<Longrightarrow>
   (case m e of
      None \<Rightarrow>
        (filter (considered e) rs = [] \<and> m' e = None) \<or>
        (\<exists>r. m' e = Some r \<and> greatest (filter (considered e) rs) r)
    | Some cur \<Rightarrow>
        (m' e = Some cur \<and>
         (\<forall>x\<in>set (filter (considered e) rs). not_older (tag_name cur) (tag_name x))) \<or>
        (\<exists>r. m' e = Some r \<and> newer (tag_name r) (tag_name cur) \<and>
           greatest (filter (considered e) rs) r))"
proof (induction rs arbitrary: m)
  case Nil
  then show ?case by (auto split: option.splits)
next
  case (Cons rel rs)
  from Cons.prems obtain m1 where
    sel: "select_release rel m = Inr m1" and rest: "forEach_release rs m1 = Inr m'"
    by (auto split: sum.splits)
  note IH = Cons.IH [OF rest]
  show ?case
  proof (cases "considered e rel")
    case False
    then have "m1 e = m e" using sel by (rule select_release_other [rotated])
    with IH False show ?thesis by (simp split: option.splits)
  next
    case True
    show ?thesis
    proof (cases "m e")
      case None
      then have m1: "m1 e = Some rel" using sel True by (simp add: select_release_first)
      from IH m1 consider
        (keep) "m' e = Some rel"
          "\<forall>x\<in>set (filter (considered e) rs). not_older (tag_name rel) (tag_name x)"
        | (swap) r where "m' e = Some r" "newer (tag_name r) (tag_name rel)"
            "greatest (filter (considered e) rs) r"
        by auto
      then show ?thesis
      proof cases
        case keep
        then show ?thesis using None True by (auto intro: greatest_here)
      next
        case swap
        then show ?thesis using None True by (auto intro: greatest_later newer_not_older)
      qed
    next
      case (Some cur)
      from select_release_next [OF sel True Some] show ?thesis
      proof (elim disjE conjE)
        assume nw: "newer (tag_name rel) (tag_name cur)" and m1: "m1 e = Some rel"
        from IH m1 consider
          (keep) "m' e = Some rel"
            "\<forall>x\<in>set (filter (considered e) rs). not_older (tag_name rel) (tag_name x)"
          | (swap) r where "m' e = Some r" "newer (tag_name r) (tag_name rel)"
              "greatest (filter (considered e) rs) r"
          by auto
        then show ?thesis
        proof cases
          case keep
          then show ?thesis using Some True nw by (auto intro: greatest_here)
        next
          case swap
          moreover have "newer (tag_name r) (tag_name cur)"
            using swap(2) nw by (rule newer_newer_trans)
          ultimately show ?thesis using Some True
            by (auto intro: greatest_later newer_not_older)
        qed
      next
        assume no: "not_older (tag_name cur) (tag_name rel)" and m1: "m1 e = Some cur"
        from IH m1 consider
          (keep) "m' e = Some cur"
            "\<forall>x\<in>set (filter (considered e) rs). not_older (tag_name cur) (tag_name x)"
          | (swap) r where "m' e = Some r" "newer (tag_name r) (tag_name cur)"
              "greatest (filter (considered e) rs) r"
          by auto
        then show ?thesis
        proof cases
          case keep
          then show ?thesis using Some True no by auto
        next
          case swap
          moreover have "not_older (tag_name r) (tag_name rel)"
            using swap(2) no by (rule newer_not_older_trans)
          ultimately show ?thesis using Some True by (auto intro: greatest_later)
        qed
      qed
    qed
  qed
qed

text \<open>
  The invariant for small tags, among which the comparison is a linear preorder: the entry
  of \<open>e\<close> is the first greatest of the releases of \<open>e\<close> seen so far.
\<close>

lemma forEach_release_env:
  "forEach_release rs m = Inr m' \<Longrightarrow>
   \<forall>x\<in>set rs. considered e x \<longrightarrow> small_tag (tag_name x) \<Longrightarrow>
   \<forall>cur. m e = Some cur \<longrightarrow> small_tag (tag_name cur) \<Longrightarrow>
   (case m e of
      None \<Rightarrow>
        (filter (considered e) rs = [] \<and> m' e = None) \<or>
        (\<exists>r. m' e = Some r \<and> first_greatest (filter (considered e) rs) r)
    | Some cur \<Rightarrow>
        (m' e = Some cur \<and>
         (\<forall>x\<in>set (filter (considered e) rs). not_older (tag_name cur) (tag_name x))) \<or>
        (\<exists>r. m' e = Some r \<and> newer (tag_name r) (tag_name cur) \<and>
           first_greatest (filter (considered e) rs) r))"
proof (induction rs arbitrary: m)
  case Nil
  then show ?case by (auto split: option.splits)
next
  case (Cons rel rs)
  from Cons.prems(1) obtain m1 where
    sel: "select_release rel m = Inr m1" and rest: "forEach_release rs m1 = Inr m'"
    by (auto split: sum.splits)
  from Cons.prems(2) have srs: "\<forall>x\<in>set rs. considered e x \<longrightarrow> small_tag (tag_name x)"
    by simp
  have small_mem: "small_tag (tag_name r)" if "first_greatest (filter (considered e) rs) r" for r
    using first_greatest_mem [OF that] srs by simp
  show ?case
  proof (cases "considered e rel")
    case False
    then have eq: "m1 e = m e" using sel by (rule select_release_other [rotated])
    with Cons.prems(3) have "\<forall>cur. m1 e = Some cur \<longrightarrow> small_tag (tag_name cur)" by simp
    from Cons.IH [OF rest srs this] eq False show ?thesis by (simp split: option.splits)
  next
    case True
    with Cons.prems(2) have srel: "small_tag (tag_name rel)" by simp
    show ?thesis
    proof (cases "m e")
      case None
      then have m1: "m1 e = Some rel" using sel True by (simp add: select_release_first)
      with srel have "\<forall>cur. m1 e = Some cur \<longrightarrow> small_tag (tag_name cur)" by simp
      from Cons.IH [OF rest srs this] m1 consider
        (keep) "m' e = Some rel"
          "\<forall>x\<in>set (filter (considered e) rs). not_older (tag_name rel) (tag_name x)"
        | (swap) r where "m' e = Some r" "newer (tag_name r) (tag_name rel)"
            "first_greatest (filter (considered e) rs) r"
        by auto
      then show ?thesis
      proof cases
        case keep
        then show ?thesis using None True by (auto intro: first_greatest_here)
      next
        case swap
        then show ?thesis using None True by (auto intro: first_greatest_later)
      qed
    next
      case (Some cur)
      with Cons.prems(3) have scur: "small_tag (tag_name cur)" by simp
      from select_release_next [OF sel True Some] show ?thesis
      proof (elim disjE conjE)
        assume nw: "newer (tag_name rel) (tag_name cur)" and m1: "m1 e = Some rel"
        from m1 srel have "\<forall>cur. m1 e = Some cur \<longrightarrow> small_tag (tag_name cur)" by simp
        from Cons.IH [OF rest srs this] m1 consider
          (keep) "m' e = Some rel"
            "\<forall>x\<in>set (filter (considered e) rs). not_older (tag_name rel) (tag_name x)"
          | (swap) r where "m' e = Some r" "newer (tag_name r) (tag_name rel)"
              "first_greatest (filter (considered e) rs) r"
          by auto
        then show ?thesis
        proof cases
          case keep
          then show ?thesis using Some True nw by (auto intro: first_greatest_here)
        next
          case swap
          moreover have "newer (tag_name r) (tag_name cur)"
            using swap(2) nw by (rule newer_newer_trans)
          ultimately show ?thesis using Some True by (auto intro: first_greatest_later)
        qed
      next
        assume no: "not_older (tag_name cur) (tag_name rel)" and m1: "m1 e = Some cur"
        from m1 scur have "\<forall>cur. m1 e = Some cur \<longrightarrow> small_tag (tag_name cur)" by simp
        from Cons.IH [OF rest srs this] m1 consider
          (keep) "m' e = Some cur"
            "\<forall>x\<in>set (filter (considered e) rs). not_older (tag_name cur) (tag_name x)"
          | (swap) r where "m' e = Some r" "newer (tag_name r) (tag_name cur)"
              "first_greatest (filter (considered e) rs) r"
          by auto
        then show ?thesis
        proof cases
          case keep
          then show ?thesis using Some True no by auto
        next
          case swap
          moreover have "newer (tag_name r) (tag_name rel)"
            using small_mem [OF swap(3)] scur srel swap(2) no by (rule newer_trans)
          ultimately show ?thesis using Some True by (auto intro: first_greatest_later)
        qed
      qed
    qed
  qed
qed

lemma candidates_filter:
  "filter (considered env) (filter (\<lambda>rel. \<not> draft rel) data) = candidates env data"
  by (auto simp: candidates_def considered_def candidate_def intro: filter_cong)

lemma forEach_release_empty:
  assumes "forEach_release (filter (\<lambda>rel. \<not> draft rel) data) Map.empty = Inr latest"
  shows "latest env = Some r \<Longrightarrow> greatest (candidates env data) r"
    and "latest env = None \<Longrightarrow> candidates env data = []"
    and "candidates env data = [] \<Longrightarrow> latest env = None"
  using forEach_release_greatest [OF assms, of env, unfolded candidates_filter]
  by (auto simp: greatest_def)

lemma forEach_release_small:
  assumes "forEach_release (filter (\<lambda>rel. \<not> draft rel) data) Map.empty = Inr latest"
    and "latest env = Some r"
    and "\<forall>x\<in>set (candidates env data). small_tag (tag_name x)"
  shows "first_greatest (candidates env data) r"
proof -
  have "\<forall>x\<in>set (filter (\<lambda>rel. \<not> draft rel) data). considered env x \<longrightarrow> small_tag (tag_name x)"
    using assms(3) by (auto simp: candidates_def considered_def candidate_def)
  from forEach_release_env [OF assms(1) this, unfolded candidates_filter] assms(2)
  show ?thesis by (auto simp: first_greatest_def)
qed

lemma cache_entry_version: "cache_entry cp r = Some rel \<Longrightarrow> release_version rel = tag_name r"
  by (auto simp: cache_entry_def split: if_splits)

text \<open>What the index holds for an environment, for all tags.\<close>

lemma index_releases_entry:
  assumes "index_releases cp data = Inr idx"
  shows "candidates env data = [] \<Longrightarrow> idx env = None"
    and "candidates env data \<noteq> [] \<Longrightarrow>
      \<exists>r. greatest (candidates env data) r \<and> idx env = cache_entry cp r"
proof -
  from assms obtain latest where
    latest: "forEach_release (filter (\<lambda>rel. \<not> draft rel) data) Map.empty = Inr latest"
    and idx: "idx = build_index cp latest"
    by (auto simp: index_releases_def split: sum.splits)
  show "idx env = None" if "candidates env data = []"
    using forEach_release_empty(3) [OF latest that] idx by (simp add: build_index_def)
  show "\<exists>r. greatest (candidates env data) r \<and> idx env = cache_entry cp r"
    if "candidates env data \<noteq> []"
  proof (cases "latest env")
    case None
    from forEach_release_empty(2) [OF latest None] that show ?thesis by simp
  next
    case (Some r)
    from forEach_release_empty(1) [OF latest Some] idx Some show ?thesis
      by (auto simp: build_index_def)
  qed
qed

text \<open>
  The loop completes when every release it compares has a valid tag and no environment is a
  property of \<open>Object.prototype\<close>.
\<close>

lemma select_release_succeeds:
  assumes "tag_name rel \<noteq> [] \<and> assets rel \<noteq> None \<longrightarrow>
      semver_new (tag_name rel) \<noteq> None \<and> \<not> prototype_key (environmentName (tag_name rel))"
    and "\<forall>e cur. m e = Some cur \<longrightarrow> semver_new (tag_name cur) \<noteq> None"
  shows "\<exists>m1. select_release rel m = Inr m1 \<and>
     (\<forall>e cur. m1 e = Some cur \<longrightarrow> semver_new (tag_name cur) \<noteq> None)"
proof (cases "tag_name rel = [] \<or> assets rel = None")
  case True
  with assms(2) show ?thesis by (auto simp: select_release_def)
next
  case False
  with assms(1) have ok: "semver_new (tag_name rel) \<noteq> None"
    "\<not> prototype_key (environmentName (tag_name rel))"
    by auto
  show ?thesis
  proof (cases "m (environmentName (tag_name rel))")
    case None
    with False ok assms(2) show ?thesis
      by (auto simp: select_release_def get_property_def)
  next
    case (Some cur)
    with assms(2) have "semver_new (tag_name cur) \<noteq> None" by blast
    with ok obtain b where "gt (tag_name rel) (tag_name cur) = Some b"
      by (auto simp: gt_def compare_def)
    with False Some ok assms(2) show ?thesis
      by (cases b) (auto simp: select_release_def get_property_def)
  qed
qed

lemma forEach_release_succeeds:
  "\<forall>rel\<in>set rs. tag_name rel \<noteq> [] \<and> assets rel \<noteq> None \<longrightarrow>
      semver_new (tag_name rel) \<noteq> None \<and> \<not> prototype_key (environmentName (tag_name rel)) \<Longrightarrow>
   \<forall>e cur. m e = Some cur \<longrightarrow> semver_new (tag_name cur) \<noteq> None \<Longrightarrow>
   \<exists>m'. forEach_release rs m = Inr m'"
proof (induction rs arbitrary: m)
  case Nil
  then show ?case by simp
next
  case (Cons rel rs)
  from Cons.prems(1) have
    "tag_name rel \<noteq> [] \<and> assets rel \<noteq> None \<longrightarrow>
      semver_new (tag_name rel) \<noteq> None \<and> \<not> prototype_key (environmentName (tag_name rel))"
    by simp
  from select_release_succeeds [OF this Cons.prems(2)] obtain m1 where
    m1: "select_release rel m = Inr m1"
    "\<forall>e cur. m1 e = Some cur \<longrightarrow> semver_new (tag_name cur) \<noteq> None"
    by blast
  from Cons.prems(1) have "\<forall>rel\<in>set rs. tag_name rel \<noteq> [] \<and> assets rel \<noteq> None \<longrightarrow>
      semver_new (tag_name rel) \<noteq> None \<and> \<not> prototype_key (environmentName (tag_name rel))"
    by simp
  from Cons.IH [OF this m1(2)] m1(1) show ?case by simp
qed

lemma index_releases_succeeds:
  assumes "\<forall>x\<in>set data. candidate x \<longrightarrow>
      valid (tag_name x) \<and> \<not> prototype_key (environmentName (tag_name x))"
  shows "\<exists>idx. index_releases cp data = Inr idx"
proof -
  have "\<forall>rel\<in>set (filter (\<lambda>rel. \<not> draft rel) data).
      tag_name rel \<noteq> [] \<and> assets rel \<noteq> None \<longrightarrow>
      semver_new (tag_name rel) \<noteq> None \<and> \<not> prototype_key (environmentName (tag_name rel))"
    using assms by (auto simp: candidate_def valid_def)
  from forEach_release_succeeds [OF this, of Map.empty] show ?thesis
    by (auto simp: index_releases_def)
qed
section \<open>The index\<close>

text \<open>
  C1 (latest selection), as the code has it. Indexing completes when every release that is
  not a draft and has a tag and an asset list carries a valid tag, and no environment is
  named like a property of \<open>Object.prototype\<close>. Whenever indexing completes:

  \<^item> an environment without such a release has no entry;

  \<^item> an environment with exactly one such release has the entry built from it, whatever
    its tag is;

  \<^item> an environment with such releases has the entry built from one of them, which
    \<open>compare\<close> does not put below any other of them; and where the two tags are small
    that is the precedence of Semantic Versioning;

  \<^item> an entry comes from a release of the response that is not a draft, has a tag and an
    asset list and belongs to that environment, and it carries that release's tag as its
    version.

  Drafts are never selected. Tags are not validated.
\<close>

theorem latest_selection:
  "((\<forall>x\<in>set data. candidate x \<longrightarrow>
        valid (tag_name x) \<and> \<not> prototype_key (environmentName (tag_name x))) \<longrightarrow>
      (\<exists>idx. index_releases cp data = Inr idx)) \<and>
   (\<forall>idx env. index_releases cp data = Inr idx \<longrightarrow>
      (candidates env data = [] \<longrightarrow> idx env = None) \<and>
      (\<forall>r. candidates env data = [r] \<longrightarrow> idx env = cache_entry cp r) \<and>
      (candidates env data \<noteq> [] \<longrightarrow>
         (\<exists>pre r post. candidates env data = pre @ r # post \<and> idx env = cache_entry cp r \<and>
            (\<forall>x\<in>set pre \<union> set post.
               not_older (tag_name r) (tag_name x) \<and>
               (small_tag (tag_name r) \<and> small_tag (tag_name x) \<longrightarrow>
                  exact_compare (tag_name r) (tag_name x) = Some 0 \<or>
                  exact_compare (tag_name r) (tag_name x) = Some 1)))) \<and>
      (\<forall>rel. idx env = Some rel \<longrightarrow>
         (\<exists>r\<in>set data. candidate r \<and> environmentName (tag_name r) = env \<and>
            cache_entry cp r = Some rel \<and> release_version rel = tag_name r \<and>
            (\<forall>x\<in>set data. candidate x \<and> environmentName (tag_name x) = env \<longrightarrow>
               x = r \<or> not_older (tag_name r) (tag_name x)))))"
proof (intro conjI allI impI)
  assume "\<forall>x\<in>set data. candidate x \<longrightarrow>
        valid (tag_name x) \<and> \<not> prototype_key (environmentName (tag_name x))"
  then show "\<exists>idx. index_releases cp data = Inr idx"
    by (rule index_releases_succeeds)
next
  fix idx env
  assume h: "index_releases cp data = Inr idx" and "candidates env data = []"
  then show "idx env = None" by (rule index_releases_entry(1))
next
  fix idx env r
  assume h: "index_releases cp data = Inr idx" and one: "candidates env data = [r]"
  from index_releases_entry(2) [OF h, of env] one obtain r' where
    "greatest [r] r'" "idx env = cache_entry cp r'"
    by auto
  with greatest_single [of r r'] show "idx env = cache_entry cp r" by simp
next
  fix idx env
  assume h: "index_releases cp data = Inr idx" and ne: "candidates env data \<noteq> []"
  from index_releases_entry(2) [OF h ne] obtain r where
    g: "greatest (candidates env data) r" and e: "idx env = cache_entry cp r"
    by blast
  from g obtain pre post where d: "candidates env data = pre @ r # post"
    "\<forall>x\<in>set pre \<union> set post. not_older (tag_name r) (tag_name x)"
    by (auto simp: greatest_def)
  have "exact_compare (tag_name r) (tag_name x) = Some 0 \<or>
      exact_compare (tag_name r) (tag_name x) = Some 1"
    if "x \<in> set pre \<union> set post" "small_tag (tag_name r) \<and> small_tag (tag_name x)" for x
  proof -
    from that(2) have "compare (tag_name r) (tag_name x) = exact_compare (tag_name r) (tag_name x)"
      by (simp add: compare_exact)
    moreover from d(2) that(1) have "not_older (tag_name r) (tag_name x)" by blast
    ultimately show ?thesis using compare_cases [of "tag_name r" "tag_name x"]
      by (auto simp: not_older_def)
  qed
  with d e show "\<exists>pre r post. candidates env data = pre @ r # post \<and>
      idx env = cache_entry cp r \<and>
      (\<forall>x\<in>set pre \<union> set post.
         not_older (tag_name r) (tag_name x) \<and>
         (small_tag (tag_name r) \<and> small_tag (tag_name x) \<longrightarrow>
            exact_compare (tag_name r) (tag_name x) = Some 0 \<or>
            exact_compare (tag_name r) (tag_name x) = Some 1))"
    by blast
next
  fix idx env rel
  assume h: "index_releases cp data = Inr idx" and rel: "idx env = Some rel"
  have ne: "candidates env data \<noteq> []"
    using index_releases_entry(1) [OF h, of env] rel by auto
  from index_releases_entry(2) [OF h ne] obtain r where
    g: "greatest (candidates env data) r" and e: "idx env = cache_entry cp r"
    by blast
  from e rel have ce: "cache_entry cp r = Some rel" by simp
  from greatest_mem [OF g]
  have mem: "r \<in> set data" "candidate r" "environmentName (tag_name r) = env"
    by (auto simp: candidates_def)
  have "x = r \<or> not_older (tag_name r) (tag_name x)"
    if "x \<in> set data" "candidate x \<and> environmentName (tag_name x) = env" for x
    using greatest_max [OF g, of x] that by (simp add: candidates_def)
  with mem ce cache_entry_version [OF ce]
  show "\<exists>r\<in>set data. candidate r \<and> environmentName (tag_name r) = env \<and>
         cache_entry cp r = Some rel \<and> release_version rel = tag_name r \<and>
         (\<forall>x\<in>set data. candidate x \<and> environmentName (tag_name x) = env \<longrightarrow>
            x = r \<or> not_older (tag_name r) (tag_name x))"
    by blast
qed

text \<open>
  The five example releases have valid tags. The entry of production is \<open>v1.2.0\<close>, not
  the draft \<open>v9.9.9\<close>, and there is no entry for an environment that has no release.
\<close>

theorem latest_selection_witness:
  "list_all (\<lambda>x. valid (tag_name x) \<and> \<not> prototype_key (environmentName (tag_name x)))
     example_data \<and>
   candidates ''production'' example_data \<noteq> [] \<and> candidates ''gamma'' example_data = [] \<and>
   (\<exists>idx rel. index_releases example_platform example_data = Inr idx \<and>
     idx ''gamma'' = None \<and>
     idx ''production'' = Some rel \<and> release_version rel = ''v1.2.0'' \<and>
     (\<exists>pre r post. candidates ''production'' example_data = pre @ r # post \<and>
        idx ''production'' = cache_entry example_platform r \<and>
        (\<forall>x\<in>set pre \<union> set post. not_older (tag_name r) (tag_name x))) \<and>
     (\<exists>r\<in>set example_data. candidate r \<and> environmentName (tag_name r) = ''production'' \<and>
        cache_entry example_platform r = Some rel \<and> release_version rel = tag_name r \<and>
        (\<forall>x\<in>set example_data. candidate x \<and> environmentName (tag_name x) = ''production'' \<longrightarrow>
           x = r \<or> not_older (tag_name r) (tag_name x))))"
proof -
  have v: "list_all (\<lambda>x. valid (tag_name x) \<and> \<not> prototype_key (environmentName (tag_name x)))
     example_data"
    by code_simp
  have c: "candidates ''production'' example_data \<noteq> []" "candidates ''gamma'' example_data = []"
    by code_simp+
  from v have "\<forall>x\<in>set example_data. candidate x \<longrightarrow>
        valid (tag_name x) \<and> \<not> prototype_key (environmentName (tag_name x))"
    by (simp add: list_all_iff)
  with latest_selection [of example_data example_platform]
  obtain idx where idx: "index_releases example_platform example_data = Inr idx" by blast
  have "case index_releases example_platform example_data of
          Inl e \<Rightarrow> False
        | Inr idx \<Rightarrow>
            (case idx ''production'' of None \<Rightarrow> False
             | Some rel \<Rightarrow> release_version rel = ''v1.2.0'')"
    by code_simp
  with idx obtain rel where h: "idx ''production'' = Some rel" "release_version rel = ''v1.2.0''"
    by (auto split: option.splits)
  note t = latest_selection [of example_data example_platform]
  from t idx c(2) have 1: "idx ''gamma'' = None" by blast
  from t idx c(1) have 2: "\<exists>pre r post. candidates ''production'' example_data = pre @ r # post \<and>
        idx ''production'' = cache_entry example_platform r \<and>
        (\<forall>x\<in>set pre \<union> set post. not_older (tag_name r) (tag_name x))"
    by blast
  from t idx h(1) have 3: "\<exists>r\<in>set example_data. candidate r \<and>
      environmentName (tag_name r) = ''production'' \<and>
      cache_entry example_platform r = Some rel \<and> release_version rel = tag_name r \<and>
      (\<forall>x\<in>set example_data. candidate x \<and> environmentName (tag_name x) = ''production'' \<longrightarrow>
         x = r \<or> not_older (tag_name r) (tag_name x))"
    by blast
  from v c idx h 1 2 3 show ?thesis by blast
qed

text \<open>
  A release tagged \<open>nightly\<close>, which is not a version, is indexed as the latest release of
  production when it is the only release of that environment.
\<close>

theorem invalid_tag_retained:
  "indexed example_platform nightly_data ''production'' = Some (''nightly'', ''built last night'') \<and>
   \<not> valid ''nightly''"
  by code_simp

text \<open>
  Where the tags are not small the retained release need not be the one of the highest
  precedence: of the prereleases \<open>beta-x.9007199254740992\<close> and \<open>beta-x.9007199254740993\<close>
  the index holds the first, which \<open>compare\<close> finds equal to the second.
\<close>

lemma rounded_first_retained:
  "indexed example_platform rounded_data ''beta'' =
     Some (''v1.0.0-beta-x.9007199254740992'', ''first'') \<and>
   compare ''v1.0.0-beta-x.9007199254740993'' ''v1.0.0-beta-x.9007199254740992'' = Some 0 \<and>
   exact_compare ''v1.0.0-beta-x.9007199254740993'' ''v1.0.0-beta-x.9007199254740992'' = Some 1"
  by code_simp

text \<open>
  C4 (ties), as the code has it. Let the tags of the releases of an environment be small.
  The release that the loop retains for the environment is the first of the greatest: every
  release of the environment processed before it has a strictly smaller version, every one
  processed after it a smaller or an equal one, by \<open>compare\<close> and by the precedence of
  Semantic Versioning alike. Of two releases whose versions compare equal, the earlier
  processed one is therefore retained. The entry of the index is built from the retained
  release.
\<close>

theorem tie_keeps_earlier:
  assumes "forEach_release (filter (\<lambda>rel. \<not> draft rel) data) Map.empty = Inr latest"
    and "latest env = Some r"
    and "\<forall>x\<in>set (candidates env data). small_tag (tag_name x)"
  shows "(\<exists>pre post. candidates env data = pre @ r # post \<and>
            (\<forall>x\<in>set pre. compare (tag_name r) (tag_name x) = Some 1 \<and>
               exact_compare (tag_name r) (tag_name x) = Some 1) \<and>
            (\<forall>x\<in>set post.
               (compare (tag_name r) (tag_name x) = Some 0 \<or>
                compare (tag_name r) (tag_name x) = Some 1) \<and>
               exact_compare (tag_name r) (tag_name x) = compare (tag_name r) (tag_name x))) \<and>
         index_releases cp data = Inr (build_index cp latest) \<and>
         build_index cp latest env = cache_entry cp r"
proof -
  from forEach_release_small [OF assms]
  obtain pre post where d: "candidates env data = pre @ r # post"
    "\<forall>x\<in>set pre. newer (tag_name r) (tag_name x)"
    "\<forall>x\<in>set post. not_older (tag_name r) (tag_name x)"
    by (auto simp: first_greatest_def)
  from d(1) assms(3) have sr: "small_tag (tag_name r)" by simp
  have ex: "exact_compare (tag_name r) (tag_name x) = compare (tag_name r) (tag_name x)"
    if "x \<in> set pre \<union> set post" for x
  proof -
    from that d(1) assms(3) have "small_tag (tag_name x)" by auto
    with sr show ?thesis by (simp add: compare_exact)
  qed
  have "compare (tag_name r) (tag_name x) = Some 1 \<and>
      exact_compare (tag_name r) (tag_name x) = Some 1"
    if "x \<in> set pre" for x
    using d(2) that ex [of x] by (simp add: newer_def)
  moreover have "(compare (tag_name r) (tag_name x) = Some 0 \<or>
      compare (tag_name r) (tag_name x) = Some 1) \<and>
      exact_compare (tag_name r) (tag_name x) = compare (tag_name r) (tag_name x)"
    if "x \<in> set post" for x
    using d(3) that compare_cases [of "tag_name r" "tag_name x"] ex [of x]
    by (auto simp: not_older_def)
  ultimately have "\<exists>pre post. candidates env data = pre @ r # post \<and>
      (\<forall>x\<in>set pre. compare (tag_name r) (tag_name x) = Some 1 \<and>
         exact_compare (tag_name r) (tag_name x) = Some 1) \<and>
      (\<forall>x\<in>set post.
         (compare (tag_name r) (tag_name x) = Some 0 \<or>
          compare (tag_name r) (tag_name x) = Some 1) \<and>
         exact_compare (tag_name r) (tag_name x) = compare (tag_name r) (tag_name x))"
    using d(1) by blast
  moreover have "index_releases cp data = Inr (build_index cp latest)"
    using assms(1) by (simp add: index_releases_def)
  moreover have "build_index cp latest env = cache_entry cp r"
    using assms(2) by (simp add: build_index_def)
  ultimately show ?thesis by blast
qed

text \<open>Of the two example releases with equal versions the loop retains the first.\<close>

theorem tie_keeps_earlier_witness:
  "list_all (\<lambda>x. small_tag (tag_name x)) (candidates ''production'' tie_data) \<and>
   (\<exists>latest r. forEach_release (filter (\<lambda>rel. \<not> draft rel) tie_data) Map.empty = Inr latest \<and>
     latest ''production'' = Some r \<and> tag_name r = ''v1.0.0'' \<and> body r = ''first'' \<and>
     (\<exists>pre post. candidates ''production'' tie_data = pre @ r # post \<and>
        (\<forall>x\<in>set pre. compare (tag_name r) (tag_name x) = Some 1 \<and>
           exact_compare (tag_name r) (tag_name x) = Some 1) \<and>
        (\<forall>x\<in>set post.
           (compare (tag_name r) (tag_name x) = Some 0 \<or>
            compare (tag_name r) (tag_name x) = Some 1) \<and>
           exact_compare (tag_name r) (tag_name x) = compare (tag_name r) (tag_name x))))"
proof -
  have s: "list_all (\<lambda>x. small_tag (tag_name x)) (candidates ''production'' tie_data)"
    by code_simp
  then have s': "\<forall>x\<in>set (candidates ''production'' tie_data). small_tag (tag_name x)"
    by (simp add: list_all_iff)
  have "case forEach_release (filter (\<lambda>rel. \<not> draft rel) tie_data) Map.empty of
          Inl e \<Rightarrow> False
        | Inr latest \<Rightarrow>
            (case latest ''production'' of None \<Rightarrow> False
             | Some r \<Rightarrow> tag_name r = ''v1.0.0'' \<and> body r = ''first'')"
    by code_simp
  then obtain latest r where
    h: "forEach_release (filter (\<lambda>rel. \<not> draft rel) tie_data) Map.empty = Inr latest"
    "latest ''production'' = Some r" "tag_name r = ''v1.0.0''" "body r = ''first''"
    by (auto split: sum.splits option.splits)
  from tie_keeps_earlier [OF h(1) h(2) s', of example_platform] h s show ?thesis by blast
qed

text \<open>
  The tags \<open>v1.0.0\<close> and \<open>1.0.0\<close> compare equal, and the index holds the release that
  was processed first, not the later one.
\<close>

theorem tie_later_not_retained:
  "compare ''1.0.0'' ''v1.0.0'' = Some 0 \<and>
   indexed example_platform tie_data ''production'' = Some (''v1.0.0'', ''first'')"
  by code_simp

text \<open>
  Where the tags are not small the statement fails: of these three prereleases the index
  holds the third, although \<open>compare\<close> finds it equal to the second, which was processed
  before it.
\<close>

lemma rounded_later_retained:
  "indexed example_platform rounded_tie_data ''beta'' =
     Some (''v1.0.0-beta-x.9007199254740993.2'', ''third'') \<and>
   compare ''v1.0.0-beta-x.9007199254740993.2'' ''v1.0.0-beta-x.9007199254740992.0'' = Some 0 \<and>
   \<not> small_tag ''v1.0.0-beta-x.9007199254740993.2''"
  by code_simp

section \<open>Platform tables of the index\<close>

lemma platform_entry_Some:
  "platform_entry cp x = Some (p, a) \<Longrightarrow> cp (name x) = Some p \<and> p \<noteq> [] \<and> asset_name a = name x"
  by (auto simp: platform_entry_def split: option.splits if_splits)

lemma fromEntries_Some: "fromEntries es p = Some a \<Longrightarrow> (p, a) \<in> set es"
  by (auto simp: fromEntries_def dest: map_of_SomeD)

lemma fromEntries_nonempty: "es \<noteq> [] \<Longrightarrow> fromEntries es \<noteq> Map.empty"
  by (cases es rule: rev_cases) (auto simp: fromEntries_def)

lemma map_filter_mem: "y \<in> set (List.map_filter f xs) \<Longrightarrow> \<exists>x\<in>set xs. f x = Some y"
  by (auto simp: List.map_filter_def)

lemma platform_entries_mem:
  assumes "(p, a) \<in> set (platform_entries cp r)"
  shows "resolves cp (asset_name a) \<and> cp (asset_name a) = Some p"
proof -
  from assms obtain x where "platform_entry cp x = Some (p, a)"
    unfolding platform_entries_def by (blast dest: map_filter_mem)
  from platform_entry_Some [OF this] show ?thesis by (simp add: resolves_def)
qed

lemma platform_entries_none:
  "\<forall>a\<in>set (case assets r of None \<Rightarrow> [] | Some xs \<Rightarrow> xs). \<not> resolves cp (name a) \<Longrightarrow>
     platform_entries cp r = []"
  by (auto simp: platform_entries_def List.map_filter_def resolves_def platform_entry_def
      filter_empty_conv split: option.splits)

lemma cache_entry_filtered:
  assumes "cache_entry cp r = Some rel"
  shows "platforms rel \<noteq> Map.empty"
    and "platforms rel p = Some a \<Longrightarrow> resolves cp (asset_name a) \<and> cp (asset_name a) = Some p"
proof -
  from assms have pl: "platforms rel = fromEntries (platform_entries cp r)"
    and ne: "platform_entries cp r \<noteq> []"
    by (auto simp: cache_entry_def split: if_splits)
  show "platforms rel \<noteq> Map.empty" using pl ne by (simp add: fromEntries_nonempty)
  show "resolves cp (asset_name a) \<and> cp (asset_name a) = Some p" if "platforms rel p = Some a"
    using that pl by (auto dest!: fromEntries_Some platform_entries_mem)
qed

lemma build_index_filtered: "platform_filtered cp (build_index cp latest)"
  unfolding platform_filtered_def build_index_def
  by (auto split: option.splits dest: cache_entry_filtered)

lemma index_releases_filtered: "index_releases cp data = Inr idx \<Longrightarrow> platform_filtered cp idx"
  by (auto simp: index_releases_def build_index_filtered split: sum.splits)

lemma store_releases_filtered:
  "store_releases cp b c w = (res, c', w') \<Longrightarrow>
     platform_filtered cp (latestReleaseByEnvironment c) \<Longrightarrow>
     platform_filtered cp (latestReleaseByEnvironment c')"
  by (auto simp: store_releases_def index_releases_filtered split: json.splits if_splits sum.splits)

lemma refreshCache_filtered:
  "refreshCache cfg cp c w = (res, c', w') \<Longrightarrow>
     platform_filtered cp (latestReleaseByEnvironment c) \<Longrightarrow>
     platform_filtered cp (latestReleaseByEnvironment c')"
  by (auto simp: refreshCache_def split: prod.splits sum.splits dest: store_releases_filtered)

lemma empty_filtered: "platform_filtered cp Map.empty"
  by (simp add: platform_filtered_def)

text \<open>
  C8 (platform filtering). The cache starts with an empty index, and a refresh that
  completes leaves an index in which every platform table is non-empty and lists only
  assets whose file name resolves to a platform, under that platform. When the refresh
  installed the index of a non-empty response, an environment whose retained release has
  no asset that resolves is not in the index.
\<close>

theorem platform_filtering:
  assumes "platform_filtered cp (latestReleaseByEnvironment c)"
    and "refreshCache cfg cp c w = (Inr u, c', w')"
  shows "platform_filtered cp (latestReleaseByEnvironment c') \<and>
     (\<forall>data latest env rel.
        fst (retry 3 (attempt cfg) w) = Inr (Releases data) \<and> data \<noteq> [] \<and>
        forEach_release (filter (\<lambda>rel. \<not> draft rel) data) Map.empty = Inr latest \<and>
        latest env = Some rel \<and>
        (\<forall>a\<in>set (case assets rel of None \<Rightarrow> [] | Some xs \<Rightarrow> xs). \<not> resolves cp (name a)) \<longrightarrow>
        latestReleaseByEnvironment c' env = None)"
proof (intro conjI allI impI)
  show "platform_filtered cp (latestReleaseByEnvironment c')"
    using assms by (blast intro: refreshCache_filtered)
next
  fix data latest env rel
  assume h: "fst (retry 3 (attempt cfg) w) = Inr (Releases data) \<and> data \<noteq> [] \<and>
        forEach_release (filter (\<lambda>rel. \<not> draft rel) data) Map.empty = Inr latest \<and>
        latest env = Some rel \<and>
        (\<forall>a\<in>set (case assets rel of None \<Rightarrow> [] | Some xs \<Rightarrow> xs). \<not> resolves cp (name a))"
  obtain r w1 where r: "retry 3 (attempt cfg) w = (r, w1)" by (cases "retry 3 (attempt cfg) w")
  with h have r': "r = Inr (Releases data)" by simp
  from h have idx: "index_releases cp data = Inr (build_index cp latest)"
    by (simp add: index_releases_def)
  from assms(2) r r' h idx have "latestReleaseByEnvironment c' = build_index cp latest"
    by (auto simp: refreshCache_def store_releases_def)
  moreover from h have "platform_entries cp rel = []" by (simp add: platform_entries_none)
  ultimately show "latestReleaseByEnvironment c' env = None"
    using h by (simp add: build_index_def cache_entry_def)
qed

text \<open>
  In the example the beta release has the single asset \<open>notes.txt\<close>: production is
  indexed, beta is absent.
\<close>

theorem platform_filtering_witness:
  "platform_filtered example_platform (latestReleaseByEnvironment empty_cache) \<and>
   fst (refreshCache example_config example_platform empty_cache absent_world) = Inr () \<and>
   platform_filtered example_platform
     (latestReleaseByEnvironment
        (fst (snd (refreshCache example_config example_platform empty_cache absent_world)))) \<and>
   latestReleaseByEnvironment
     (fst (snd (refreshCache example_config example_platform empty_cache absent_world)))
     ''beta'' = None"
proof -
  let ?r = "refreshCache example_config example_platform empty_cache absent_world"
  have f: "platform_filtered example_platform (latestReleaseByEnvironment empty_cache)"
    by (simp add: empty_cache_def empty_filtered)
  have ok: "fst ?r = Inr ()" by code_simp
  then have r: "?r = (Inr (), fst (snd ?r), snd (snd ?r))"
    by (metis prod.collapse)
  have d: "fst (retry 3 (attempt example_config) absent_world) = Inr (Releases absent_data)"
    by code_simp
  have ne: "absent_data \<noteq> []" by (simp add: absent_data_def)
  have "case forEach_release (filter (\<lambda>rel. \<not> draft rel) absent_data) Map.empty of
          Inl e \<Rightarrow> False
        | Inr latest \<Rightarrow>
            (case latest ''beta'' of None \<Rightarrow> False
             | Some rel \<Rightarrow>
                 list_all (\<lambda>a. \<not> resolves example_platform (name a))
                   (case assets rel of None \<Rightarrow> [] | Some xs \<Rightarrow> xs))"
    by code_simp
  then obtain latest rel where
    l: "forEach_release (filter (\<lambda>rel. \<not> draft rel) absent_data) Map.empty = Inr latest"
    "latest ''beta'' = Some rel"
    "\<forall>a\<in>set (case assets rel of None \<Rightarrow> [] | Some xs \<Rightarrow> xs). \<not> resolves example_platform (name a)"
    by (auto simp: list_all_iff split: sum.splits option.splits)
  from platform_filtering [OF f r] d ne l f ok show ?thesis by blast
qed

section \<open>Retrying the request\<close>

lemma mainError_loop_Some: "mainError_loop es seen (Some m) n \<noteq> None"
  by (induction es arbitrary: seen m n) simp_all

lemma mainError_loop_mem:
  "mainError_loop es seen main n = Some m \<Longrightarrow> m \<in> set es \<or> main = Some m"
proof (induction es arbitrary: seen main n)
  case Nil
  then show ?case by simp
next
  case (Cons e es)
  then show ?case by (fastforce split: if_splits)
qed

lemma surfaced_mem: "surfaced errors e \<in> set (errors @ [e])"
proof (cases "mainError (errors @ [e])")
  case None
  then show ?thesis by (simp add: surfaced_def)
next
  case (Some m)
  then have "m \<in> set (errors @ [e])"
    unfolding mainError_def by (blast dest: mainError_loop_mem)
  with Some show ?thesis by (simp add: surfaced_def)
qed

lemma surfaced_same: "set errors \<subseteq> {e} \<Longrightarrow> surfaced errors e = e"
  using surfaced_mem [of errors e] by auto

text \<open>
  What \<open>mainError()\<close> returns is the latest of the errors that occur most often, and
  there is one such error only.
\<close>

lemma most_often_latest_new:
  "\<forall>x. count_list es x \<le> Suc (count_list es e) \<Longrightarrow> most_often_latest (es @ [e]) e"
  unfolding most_often_latest_def
  apply (rule conjI)
   apply simp
  apply (rule exI [of _ es], rule exI [of _ "[]"])
  apply simp
  done

lemma most_often_latest_keep:
  assumes "most_often_latest es m" "Suc (count_list es e) < count_list es m"
  shows "most_often_latest (es @ [e]) m"
proof -
  from assms(2) have ne: "e \<noteq> m" by auto
  from assms(1) obtain pre post where d: "es = pre @ m # post" "m \<notin> set post"
    "\<forall>x\<in>set post. count_list es x < count_list es m"
    and mx: "\<forall>x. count_list es x \<le> count_list es m"
    by (auto simp: most_often_latest_def)
  have 1: "\<forall>x. count_list (es @ [e]) x \<le> count_list (es @ [e]) m"
    using mx assms(2) ne by (auto simp: le_Suc_eq)
  have 2: "es @ [e] = pre @ m # (post @ [e])" using d(1) by simp
  have 3: "m \<notin> set (post @ [e])" using d(2) ne by simp
  have 4: "\<forall>x\<in>set (post @ [e]). count_list (es @ [e]) x < count_list (es @ [e]) m"
    using d(3) assms(2) ne by auto
  from 1 2 3 4 show ?thesis unfolding most_often_latest_def by blast
qed

lemma mainError_loop_most_often:
  "(case main of None \<Rightarrow> seen = [] \<and> n = 0 \<and> es \<noteq> []
    | Some m \<Rightarrow> n = count_list seen m \<and> most_often_latest (rev seen) m) \<Longrightarrow>
   \<exists>m. mainError_loop es seen main n = Some m \<and> most_often_latest (rev seen @ es) m"
proof (induction es arbitrary: seen main n)
  case Nil
  then show ?case by (auto split: option.splits)
next
  case (Cons e es)
  show ?case
  proof (cases "n \<le> Suc (count_list seen e)")
    case True
    have "\<forall>x. count_list (rev seen) x \<le> Suc (count_list (rev seen) e)"
    proof (cases main)
      case None
      with Cons.prems show ?thesis by simp
    next
      case (Some m)
      with Cons.prems True have "count_list seen m \<le> Suc (count_list seen e)"
        "\<forall>x. count_list seen x \<le> count_list seen m"
        by (simp_all add: most_often_latest_def)
      then show ?thesis by (auto intro: order_trans)
    qed
    then have "most_often_latest (rev (e # seen)) e"
      by (simp add: most_often_latest_new)
    then have "\<exists>m. mainError_loop es (e # seen) (Some e) (Suc (count_list seen e)) = Some m \<and>
        most_often_latest (rev (e # seen) @ es) m"
      by (intro Cons.IH) simp
    with True show ?thesis by simp
  next
    case False
    with Cons.prems obtain m where m: "main = Some m" "n = count_list seen m"
      "most_often_latest (rev seen) m"
      by (cases main) auto
    from False m have "Suc (count_list (rev seen) e) < count_list (rev seen) m" by simp
    with m(3) have "most_often_latest (rev seen @ [e]) m" by (rule most_often_latest_keep)
    moreover from False m have "e \<noteq> m" by auto
    ultimately have "\<exists>k. mainError_loop es (e # seen) main n = Some k \<and>
        most_often_latest (rev (e # seen) @ es) k"
      using m by (intro Cons.IH) simp
    with False show ?thesis by simp
  qed
qed

lemma surfaced_most_often: "most_often_latest (errors @ [e]) (surfaced errors e)"
proof -
  from mainError_loop_most_often [where main = None and seen = "[]" and es = "errors @ [e]" and n = 0]
  obtain m where "mainError (errors @ [e]) = Some m" "most_often_latest (errors @ [e]) m"
    by (auto simp: mainError_def)
  then show ?thesis by (simp add: surfaced_def)
qed

lemma most_often_latest_unique:
  assumes "most_often_latest es m" "most_often_latest es k"
  shows "m = k"
proof (rule ccontr)
  assume ne: "m \<noteq> k"
  from assms(1) obtain pre post where d: "es = pre @ m # post" "m \<notin> set post"
    "\<forall>x\<in>set post. count_list es x < count_list es m"
    and mx: "\<forall>x. count_list es x \<le> count_list es m"
    by (auto simp: most_often_latest_def)
  from assms(2) obtain pre' post' where d': "es = pre' @ k # post'" "k \<notin> set post'"
    "\<forall>x\<in>set post'. count_list es x < count_list es k"
    and mx': "\<forall>x. count_list es x \<le> count_list es k"
    by (auto simp: most_often_latest_def)
  from mx mx' have eq: "count_list es m = count_list es k" by (simp add: le_antisym)
  from d(1) d'(1) ne have "k \<in> set post \<or> m \<in> set post'"
    by (auto simp: append_eq_append_conv2 Cons_eq_append_conv append_eq_Cons_conv)
  with d(3) d'(3) eq show False by auto
qed

lemma attempt_eq:
  "attempt cfg w =
     (answer w 0,
      w\<lparr>requests := requests w @ [releases_request cfg],
        clock := clock w + int (latency w (length (requests w)))\<rparr>)"
  by (simp add: attempt_def fetch_def send_def receive_def answer_def)

lemma answer_after_attempt: "answer (snd (attempt cfg w)) k = answer w (Suc k)"
  by (simp add: attempt_eq answer_def)

lemma requests_after_attempt:
  "requests (snd (attempt cfg w)) = requests w @ [releases_request cfg]"
  by (simp add: attempt_eq)

lemma clock_after_attempt: "clock w \<le> clock (snd (attempt cfg w))"
  by (simp add: attempt_eq)

lemma retry_from_0:
  "retry_from 0 errors (attempt cfg) w =
     (case answer w 0 of Inl e \<Rightarrow> Inl (surfaced errors e) | Inr b \<Rightarrow> Inr b, snd (attempt cfg w))"
  by (simp add: attempt_eq split: sum.splits)

lemma retry_from_Suc_Inl:
  "answer w 0 = Inl e \<Longrightarrow>
     retry_from (Suc n) errors (attempt cfg) w =
     retry_from n (errors @ [e]) (attempt cfg) (snd (attempt cfg w))"
  by (simp add: attempt_eq)

lemma retry_from_Suc_Inr:
  "answer w 0 = Inr b \<Longrightarrow> retry_from (Suc n) errors (attempt cfg) w = (Inr b, snd (attempt cfg w))"
  by (simp add: attempt_eq)

text \<open>When every attempt fails, with the errors \<open>es\<close> in this order.\<close>

lemma retry_from_fails:
  "length es = Suc n \<Longrightarrow> \<forall>k\<le>n. answer w k = Inl (es ! k) \<Longrightarrow>
     fst (retry_from n errors (attempt cfg) w) = Inl (surfaced (errors @ butlast es) (last es)) \<and>
     requests (snd (retry_from n errors (attempt cfg) w)) =
       requests w @ replicate (Suc n) (releases_request cfg)"
proof (induction n arbitrary: w errors es)
  case 0
  then obtain e where es: "es = [e]" by (cases es) auto
  with 0 show ?case unfolding retry_from_0 by (simp add: requests_after_attempt)
next
  case (Suc n)
  then obtain e es' where es: "es = e # es'" and len: "length es' = Suc n"
    by (cases es) auto
  from Suc.prems(2) es have e: "answer w 0 = Inl e" by auto
  let ?w = "snd (attempt cfg w)"
  have "\<forall>k\<le>n. answer ?w k = Inl (es' ! k)"
    using Suc.prems(2) es by (auto simp: answer_after_attempt)
  from Suc.IH [OF len this, of "errors @ [e]"] len show ?case
    unfolding retry_from_Suc_Inl [OF e] es
    by (auto simp: requests_after_attempt replicate_app_Cons_same)
qed

lemma retry_from_succeeds:
  "j \<le> n \<Longrightarrow> \<forall>k<j. isl (answer w k) \<Longrightarrow> answer w j = Inr b \<Longrightarrow>
     fst (retry_from n errors (attempt cfg) w) = Inr b \<and>
     requests (snd (retry_from n errors (attempt cfg) w)) =
       requests w @ replicate (Suc j) (releases_request cfg)"
proof (induction n arbitrary: w j errors)
  case 0
  then show ?case unfolding retry_from_0 by (simp add: requests_after_attempt)
next
  case (Suc n)
  show ?case
  proof (cases j)
    case 0
    with Suc.prems have b: "answer w 0 = Inr b" by simp
    show ?thesis
      unfolding retry_from_Suc_Inr [OF b] using 0 by (simp add: requests_after_attempt)
  next
    case (Suc i)
    with Suc.prems have "isl (answer w 0)" by blast
    then obtain e where e: "answer w 0 = Inl e" by (cases "answer w 0") auto
    let ?w = "snd (attempt cfg w)"
    have "i \<le> n" "\<forall>k<i. isl (answer ?w k)" "answer ?w i = Inr b"
      using Suc.prems Suc by (auto simp: answer_after_attempt)
    from Suc.IH [OF this, of "errors @ [e]"] show ?thesis
      unfolding retry_from_Suc_Inl [OF e]
      by (simp add: Suc requests_after_attempt replicate_app_Cons_same)
  qed
qed

lemma retry_from_sent:
  "\<exists>j\<le>n. requests (snd (retry_from n errors (attempt cfg) w)) =
     requests w @ replicate (Suc j) (releases_request cfg)"
proof (induction n arbitrary: w errors)
  case 0
  then show ?case unfolding retry_from_0 by (simp add: requests_after_attempt)
next
  case (Suc n)
  show ?case
  proof (cases "answer w 0")
    case (Inr b)
    then show ?thesis
      unfolding retry_from_Suc_Inr [OF Inr]
      by (intro exI [of _ 0]) (simp add: requests_after_attempt)
  next
    case (Inl e)
    let ?w = "snd (attempt cfg w)"
    from Suc.IH [of "errors @ [e]" ?w] obtain j where "j \<le> n"
      "requests (snd (retry_from n (errors @ [e]) (attempt cfg) ?w)) =
         requests ?w @ replicate (Suc j) (releases_request cfg)"
      by blast
    then show ?thesis
      unfolding retry_from_Suc_Inl [OF Inl]
      by (intro exI [of _ "Suc j"]) (simp add: requests_after_attempt replicate_app_Cons_same)
  qed
qed

lemma retry_fails4:
  assumes "answer w 0 = Inl e0" "answer w 1 = Inl e1" "answer w 2 = Inl e2" "answer w 3 = Inl e3"
  shows "fst (retry 3 (attempt cfg) w) = Inl (surfaced [e0, e1, e2] e3)"
    and "requests (snd (retry 3 (attempt cfg) w)) = requests w @ replicate 4 (releases_request cfg)"
proof -
  have "\<forall>k\<le>3. answer w k = Inl ([e0, e1, e2, e3] ! k)"
  proof (intro allI impI)
    fix k :: nat assume "k \<le> 3"
    then have "k = 0 \<or> k = 1 \<or> k = 2 \<or> k = 3" by arith
    with assms show "answer w k = Inl ([e0, e1, e2, e3] ! k)" by auto
  qed
  from retry_from_fails [of "[e0, e1, e2, e3]" 3 w "[]" cfg, OF _ this]
  show "fst (retry 3 (attempt cfg) w) = Inl (surfaced [e0, e1, e2] e3)"
    and "requests (snd (retry 3 (attempt cfg) w)) = requests w @ replicate 4 (releases_request cfg)"
    by (simp_all add: retry_def numeral_eq_Suc)
qed

lemma retry_isl:
  assumes "\<forall>k\<le>3. isl (answer w k)"
  shows "isl (fst (retry 3 (attempt cfg) w))"
proof -
  from assms have "isl (answer w 0)" "isl (answer w 1)" "isl (answer w 2)" "isl (answer w 3)"
    by simp_all
  then obtain e0 e1 e2 e3 where
    "answer w 0 = Inl e0" "answer w 1 = Inl e1" "answer w 2 = Inl e2" "answer w 3 = Inl e3"
    by (metis sum.collapse(1))
  from retry_fails4(1) [OF this, of cfg] show ?thesis by simp
qed

section \<open>Refreshing and reading the cache\<close>

lemma store_releases_world: "snd (snd (store_releases cp b c w)) = w"
  by (simp add: store_releases_def split: json.splits sum.splits)

lemma refreshCache_world:
  "snd (snd (refreshCache cfg cp c w)) = snd (retry 3 (attempt cfg) w)"
  by (simp add: refreshCache_def store_releases_world split: prod.splits sum.splits)

lemma refreshCache_sent:
  "\<exists>j\<le>3. requests (snd (snd (refreshCache cfg cp c w))) =
     requests w @ replicate (Suc j) (releases_request cfg)"
  unfolding refreshCache_world retry_def by (rule retry_from_sent)

lemma refreshCache_requests: "requests (snd (snd (refreshCache cfg cp c w))) \<noteq> requests w"
  using refreshCache_sent [of cfg cp c w] by auto

lemma refreshCache_retry_failed:
  assumes "fst (retry 3 (attempt cfg) w) = Inl e"
  shows "refreshCache cfg cp c w = (Inl e, c, snd (retry 3 (attempt cfg) w))"
proof -
  obtain r w' where r: "retry 3 (attempt cfg) w = (r, w')" by (cases "retry 3 (attempt cfg) w")
  with assms show ?thesis by (simp add: refreshCache_def)
qed

lemma store_releases_failure:
  "store_releases cp b c w = (Inl e, c', w') \<Longrightarrow> c' = c"
  by (auto simp: store_releases_def split: json.splits if_splits sum.splits)

lemma refreshCache_failure:
  "refreshCache cfg cp c w = (Inl e, c', w') \<Longrightarrow> c' = c"
  by (auto simp: refreshCache_def split: prod.splits sum.splits dest: store_releases_failure)

lemma refreshCache_answered:
  assumes "j \<le> 3" "\<forall>k<j. isl (answer w k)" "answer w j = Inr b"
  shows "\<exists>w'. refreshCache cfg cp c w = store_releases cp b c w' \<and>
     requests w' = requests w @ replicate (Suc j) (releases_request cfg)"
proof -
  obtain r w' where r: "retry 3 (attempt cfg) w = (r, w')" by (cases "retry 3 (attempt cfg) w")
  with retry_from_succeeds [OF assms(1-3), of "[]" cfg] have
    "r = Inr b" "requests w' = requests w @ replicate (Suc j) (releases_request cfg)"
    by (simp_all add: retry_def)
  with r show ?thesis
    by (auto simp: refreshCache_def)
qed

lemma failure_Some: "failure r = Some e \<longleftrightarrow> r = Inl e"
  by (cases r) (simp_all add: failure_def)

lemma loadCache_fresh:
  "truthy (lastUpdate c) \<Longrightarrow> \<not> isOutdated cfg c w \<Longrightarrow>
     loadCache cfg cp c w = (Inr (latestReleaseByEnvironment c), c, w)"
  by (simp add: loadCache_def)

lemma loadCache_stale:
  "\<not> truthy (lastUpdate c) \<or> isOutdated cfg c w \<Longrightarrow>
     snd (loadCache cfg cp c w) = snd (refreshCache cfg cp c w) \<and>
     fst (loadCache cfg cp c w) =
       (case fst (refreshCache cfg cp c w) of
          Inl e \<Rightarrow> Inl e
        | Inr u \<Rightarrow> Inr (latestReleaseByEnvironment (fst (snd (refreshCache cfg cp c w)))))"
  by (auto simp: loadCache_def split: prod.splits sum.splits)

lemma isOutdated_later:
  "isOutdated cfg c w \<Longrightarrow> clock w \<le> clock w2 \<Longrightarrow> isOutdated cfg c w2"
  by (auto simp: isOutdated_def split: option.splits)

lemma outcome_status:
  "status \<noteq> 200 \<Longrightarrow> outcome (Response status b) = Inl (GitHubStatus status)"
  by (simp add: outcome_def)

text \<open>
  C7 (staleness). With \<open>lastUpdate\<close> set, \<open>isOutdated\<close> is true exactly when the time
  since \<open>lastUpdate\<close> exceeds the interval, which is 15 minutes unless configured. (The
  code tests \<open>lastUpdate\<close> for truthiness, so a timestamp of \<open>0\<close>, which \<open>Date.now()\<close>
  reads in the first millisecond of 1970 only, counts as unset.) With \<open>lastUpdate\<close> unset, \<open>isOutdated\<close> itself
  is false and \<open>loadCache\<close> refreshes all the same. \<open>loadCache\<close> sends requests exactly
  when the cache is unset or outdated, and then it does what \<open>refreshCache\<close> does; otherwise
  it returns the index at once, leaving cache and world as they are.
\<close>

theorem staleness_policy:
  "(lastUpdate c = Some t \<and> t \<noteq> 0 \<longrightarrow>
      (isOutdated cfg c w \<longleftrightarrow>
         clock w - t > ms_minutes (case interval cfg of None \<Rightarrow> 15 | Some i \<Rightarrow> i))) \<and>
   (lastUpdate c = None \<longrightarrow>
      \<not> isOutdated cfg c w \<and> snd (loadCache cfg cp c w) = snd (refreshCache cfg cp c w)) \<and>
   (requests (snd (snd (loadCache cfg cp c w))) \<noteq> requests w \<longleftrightarrow>
      \<not> truthy (lastUpdate c) \<or> isOutdated cfg c w) \<and>
   (\<not> truthy (lastUpdate c) \<or> isOutdated cfg c w \<longrightarrow>
      snd (loadCache cfg cp c w) = snd (refreshCache cfg cp c w)) \<and>
   (truthy (lastUpdate c) \<and> \<not> isOutdated cfg c w \<longrightarrow>
      loadCache cfg cp c w = (Inr (latestReleaseByEnvironment c), c, w))"
proof (intro conjI impI)
  assume "lastUpdate c = Some t \<and> t \<noteq> 0"
  then show "isOutdated cfg c w \<longleftrightarrow>
      clock w - t > ms_minutes (case interval cfg of None \<Rightarrow> 15 | Some i \<Rightarrow> i)"
    by (simp add: isOutdated_def)
next
  assume "lastUpdate c = None"
  then show "\<not> isOutdated cfg c w" by (simp add: isOutdated_def)
next
  assume "lastUpdate c = None"
  then have "\<not> truthy (lastUpdate c)" by (simp add: truthy_def)
  then show "snd (loadCache cfg cp c w) = snd (refreshCache cfg cp c w)"
    using loadCache_stale by blast
next
  show "requests (snd (snd (loadCache cfg cp c w))) \<noteq> requests w \<longleftrightarrow>
      \<not> truthy (lastUpdate c) \<or> isOutdated cfg c w"
  proof (cases "\<not> truthy (lastUpdate c) \<or> isOutdated cfg c w")
    case True
    then have "snd (loadCache cfg cp c w) = snd (refreshCache cfg cp c w)"
      using loadCache_stale by blast
    with True refreshCache_requests [of cfg cp c w] show ?thesis by simp
  next
    case False
    then show ?thesis by (simp add: loadCache_fresh)
  qed
next
  assume "\<not> truthy (lastUpdate c) \<or> isOutdated cfg c w"
  then show "snd (loadCache cfg cp c w) = snd (refreshCache cfg cp c w)"
    using loadCache_stale by blast
next
  assume "truthy (lastUpdate c) \<and> \<not> isOutdated cfg c w"
  then show "loadCache cfg cp c w = (Inr (latestReleaseByEnvironment c), c, w)"
    by (simp add: loadCache_fresh)
qed

text \<open>
  The example cache was refreshed at 1100. Five minutes later it is fresh and is returned
  without a request; at 2000000 it is outdated and a request is sent. The empty cache is
  refreshed at any time.
\<close>

theorem staleness_policy_witness:
  "lastUpdate populated_cache = Some 1100 \<and>
   \<not> isOutdated example_config populated_cache fresh_world \<and>
   isOutdated example_config populated_cache down_world \<and>
   loadCache example_config example_platform populated_cache fresh_world =
     (Inr (latestReleaseByEnvironment populated_cache), populated_cache, fresh_world) \<and>
   requests (snd (snd (loadCache example_config example_platform populated_cache down_world)))
     \<noteq> requests down_world \<and>
   lastUpdate empty_cache = None \<and>
   snd (loadCache example_config example_platform empty_cache fresh_world) =
     snd (refreshCache example_config example_platform empty_cache fresh_world)"
proof -
  have l: "lastUpdate populated_cache = Some 1100 \<and> (1100::int) \<noteq> 0" by code_simp
  have t: "truthy (lastUpdate populated_cache)" by code_simp
  have a: "\<not> clock fresh_world - 1100 > ms_minutes (case interval example_config of None \<Rightarrow> 15 | Some i \<Rightarrow> i)"
    by code_simp
  have b: "clock down_world - 1100 > ms_minutes (case interval example_config of None \<Rightarrow> 15 | Some i \<Rightarrow> i)"
    by code_simp
  have e: "lastUpdate empty_cache = None" by (simp add: empty_cache_def)
  from staleness_policy [of populated_cache 1100 example_config fresh_world example_platform]
    staleness_policy [of populated_cache 1100 example_config down_world example_platform]
    staleness_policy [of empty_cache 0 example_config fresh_world example_platform]
    l t a b e
  show ?thesis by blast
qed

text \<open>
  C5 (failed refresh). When the first request and the three retries all fail,
  \<open>refreshCache\<close> fails and leaves the cache, index and \<open>lastUpdate\<close>, as it was. If the
  call of \<open>loadCache\<close> was due to refresh, it fails with the same error and the same
  unchanged cache; and at any later time \<open>loadCache\<close> on that cache refreshes again, sending
  a request.
\<close>

theorem failed_refresh:
  assumes "\<forall>k\<le>3. isl (answer w k)"
  shows "\<exists>e w'. refreshCache cfg cp c w = (Inl e, c, w') \<and>
     (\<not> truthy (lastUpdate c) \<or> isOutdated cfg c w \<longrightarrow>
        loadCache cfg cp c w = (Inl e, c, w') \<and>
        (\<forall>w2. clock w \<le> clock w2 \<longrightarrow>
           snd (loadCache cfg cp c w2) = snd (refreshCache cfg cp c w2) \<and>
           requests (snd (snd (loadCache cfg cp c w2))) \<noteq> requests w2))"
proof -
  from retry_isl [OF assms, of cfg] obtain e where e: "fst (retry 3 (attempt cfg) w) = Inl e"
    by (cases "fst (retry 3 (attempt cfg) w)") auto
  let ?w = "snd (retry 3 (attempt cfg) w)"
  have r: "refreshCache cfg cp c w = (Inl e, c, ?w)"
    using e by (rule refreshCache_retry_failed)
  have "loadCache cfg cp c w = (Inl e, c, ?w) \<and>
        (\<forall>w2. clock w \<le> clock w2 \<longrightarrow>
           snd (loadCache cfg cp c w2) = snd (refreshCache cfg cp c w2) \<and>
           requests (snd (snd (loadCache cfg cp c w2))) \<noteq> requests w2)"
    if stale: "\<not> truthy (lastUpdate c) \<or> isOutdated cfg c w"
  proof (intro conjI allI impI)
    show "loadCache cfg cp c w = (Inl e, c, ?w)"
      using stale r by (auto simp: loadCache_def)
  next
    fix w2 :: world assume "clock w \<le> clock w2"
    with stale have st2: "\<not> truthy (lastUpdate c) \<or> isOutdated cfg c w2"
      using isOutdated_later by blast
    then show "snd (loadCache cfg cp c w2) = snd (refreshCache cfg cp c w2)"
      using loadCache_stale by blast
    then show "requests (snd (snd (loadCache cfg cp c w2))) \<noteq> requests w2"
      using refreshCache_requests [of cfg cp c w2] by simp
  qed
  with r show ?thesis by blast
qed

text \<open>
  The outdated example cache on a network that answers 500 to everything: the call fails
  with that status, the cache keeps its index, and a call one second later sends a request
  again.
\<close>

theorem failed_refresh_witness:
  "isl (answer down_world 0) \<and> isl (answer down_world 1) \<and> isl (answer down_world 2) \<and>
   isl (answer down_world 3) \<and>
   isOutdated example_config populated_cache down_world \<and>
   fst (loadCache example_config example_platform populated_cache down_world) =
     Inl (GitHubStatus 500) \<and>
   fst (snd (loadCache example_config example_platform populated_cache down_world)) =
     populated_cache \<and>
   requests (snd (snd (loadCache example_config example_platform populated_cache
       (down_world\<lparr>clock := 2001000\<rparr>)))) \<noteq> requests (down_world\<lparr>clock := 2001000\<rparr>)"
proof -
  have a: "isl (answer down_world k)" for k
    by (simp add: answer_def down_world_def example_world_def outcome_def)
  then have h: "\<forall>k\<le>3. isl (answer down_world k)" by simp
  have st: "isOutdated example_config populated_cache down_world" by code_simp
  have "failure (fst (loadCache example_config example_platform populated_cache down_world)) =
      Some (GitHubStatus 500)"
    by code_simp
  then have f: "fst (loadCache example_config example_platform populated_cache down_world) =
      Inl (GitHubStatus 500)"
    by (simp add: failure_Some)
  have cl: "clock down_world \<le> clock (down_world\<lparr>clock := 2001000\<rparr>)"
    by (simp add: down_world_def example_world_def)
  from failed_refresh [OF h, of example_config example_platform populated_cache]
  obtain e w' where
    r: "\<not> truthy (lastUpdate populated_cache) \<or> isOutdated example_config populated_cache down_world \<longrightarrow>
        loadCache example_config example_platform populated_cache down_world = (Inl e, populated_cache, w') \<and>
        (\<forall>w2. clock down_world \<le> clock w2 \<longrightarrow>
           snd (loadCache example_config example_platform populated_cache w2) =
             snd (refreshCache example_config example_platform populated_cache w2) \<and>
           requests (snd (snd (loadCache example_config example_platform populated_cache w2))) \<noteq>
             requests w2)"
    by blast
  with st have
    l: "loadCache example_config example_platform populated_cache down_world = (Inl e, populated_cache, w')"
    and n: "\<forall>w2. clock down_world \<le> clock w2 \<longrightarrow>
           requests (snd (snd (loadCache example_config example_platform populated_cache w2))) \<noteq>
             requests w2"
    by blast+
  from l have "fst (snd (loadCache example_config example_platform populated_cache down_world)) =
      populated_cache"
    by simp
  with a st f n cl show ?thesis by blast
qed

text \<open>
  C6 (retry policy), as the code has it. A refresh sends at least one request and at most
  four: the first attempt and three retries. When all four fail, the refresh fails with the
  error that \<open>retry\<close> surfaces, which is the one of the four errors that occurs most
  often among them, the latest such one when several occur equally often, and so the last
  one when all four are equal; the cache is unchanged. The error of an answer whose status is not 200
  carries that status. When an attempt is answered with status 200, no request follows
  that answer; if the body is not an array, or is the empty array, the refresh returns
  without an error and the cache is unchanged; if the body is not JSON, the refresh fails
  and the cache is unchanged.
\<close>

theorem retry_policy:
  "(\<exists>j\<le>3. requests (snd (snd (refreshCache cfg cp c w))) =
       requests w @ replicate (Suc j) (releases_request cfg)) \<and>
   (\<forall>e0 e1 e2 e3.
      answer w 0 = Inl e0 \<and> answer w 1 = Inl e1 \<and> answer w 2 = Inl e2 \<and> answer w 3 = Inl e3 \<longrightarrow>
      fst (refreshCache cfg cp c w) = Inl (surfaced [e0, e1, e2] e3) \<and>
      surfaced [e0, e1, e2] e3 \<in> {e0, e1, e2, e3} \<and>
      most_often_latest [e0, e1, e2, e3] (surfaced [e0, e1, e2] e3) \<and>
      (e0 = e3 \<and> e1 = e3 \<and> e2 = e3 \<longrightarrow> surfaced [e0, e1, e2] e3 = e3) \<and>
      fst (snd (refreshCache cfg cp c w)) = c \<and>
      requests (snd (snd (refreshCache cfg cp c w))) =
        requests w @ replicate 4 (releases_request cfg)) \<and>
   (\<forall>k status b. net w (length (requests w) + k) = Response status b \<and> status \<noteq> 200 \<longrightarrow>
      answer w k = Inl (GitHubStatus status)) \<and>
   (\<forall>j b. j \<le> 3 \<and> (\<forall>k<j. isl (answer w k)) \<and> answer w j = Inr b \<longrightarrow>
      requests (snd (snd (refreshCache cfg cp c w))) =
        requests w @ replicate (Suc j) (releases_request cfg) \<and>
      (b = NotArray \<or> b = Releases [] \<longrightarrow>
         fst (refreshCache cfg cp c w) = Inr () \<and> fst (snd (refreshCache cfg cp c w)) = c) \<and>
      (b = NotJson \<longrightarrow>
         fst (refreshCache cfg cp c w) = Inl InvalidJson \<and>
         fst (snd (refreshCache cfg cp c w)) = c))"
proof (intro conjI allI impI)
  show "\<exists>j\<le>3. requests (snd (snd (refreshCache cfg cp c w))) =
       requests w @ replicate (Suc j) (releases_request cfg)"
    by (rule refreshCache_sent)
next
  fix e0 e1 e2 e3
  assume h: "answer w 0 = Inl e0 \<and> answer w 1 = Inl e1 \<and> answer w 2 = Inl e2 \<and> answer w 3 = Inl e3"
  then have a: "answer w 0 = Inl e0" "answer w 1 = Inl e1" "answer w 2 = Inl e2" "answer w 3 = Inl e3"
    by simp_all
  note f = retry_fails4 [OF a, of cfg]
  from refreshCache_retry_failed [OF f(1), of cp c]
  have r: "refreshCache cfg cp c w =
      (Inl (surfaced [e0, e1, e2] e3), c, snd (retry 3 (attempt cfg) w))" .
  from r show "fst (refreshCache cfg cp c w) = Inl (surfaced [e0, e1, e2] e3)" by simp
  from r show "fst (snd (refreshCache cfg cp c w)) = c" by simp
  from r f(2) show "requests (snd (snd (refreshCache cfg cp c w))) =
        requests w @ replicate 4 (releases_request cfg)"
    by simp
  from surfaced_mem [of "[e0, e1, e2]" e3]
  show "surfaced [e0, e1, e2] e3 \<in> {e0, e1, e2, e3}" by auto
  from surfaced_most_often [of "[e0, e1, e2]" e3]
  show "most_often_latest [e0, e1, e2, e3] (surfaced [e0, e1, e2] e3)" by simp
  show "surfaced [e0, e1, e2] e3 = e3" if "e0 = e3 \<and> e1 = e3 \<and> e2 = e3"
    using that by (intro surfaced_same) auto
next
  fix k status b
  assume "net w (length (requests w) + k) = Response status b \<and> status \<noteq> 200"
  then show "answer w k = Inl (GitHubStatus status)"
    by (simp add: answer_def outcome_status)
next
  fix j b
  assume h: "j \<le> 3 \<and> (\<forall>k<j. isl (answer w k)) \<and> answer w j = Inr b"
  then have h': "j \<le> 3" "\<forall>k<j. isl (answer w k)" "answer w j = Inr b" by simp_all
  from refreshCache_answered [OF h', of cfg cp c] obtain w' where
    r: "refreshCache cfg cp c w = store_releases cp b c w'"
    and q: "requests w' = requests w @ replicate (Suc j) (releases_request cfg)"
    by blast
  from q show "requests (snd (snd (refreshCache cfg cp c w))) =
        requests w @ replicate (Suc j) (releases_request cfg)"
    unfolding r store_releases_world .
  show "fst (refreshCache cfg cp c w) = Inr ()" if "b = NotArray \<or> b = Releases []"
    unfolding r using that by (auto simp: store_releases_def)
  show "fst (snd (refreshCache cfg cp c w)) = c" if "b = NotArray \<or> b = Releases []"
    unfolding r using that by (auto simp: store_releases_def)
  show "fst (refreshCache cfg cp c w) = Inl InvalidJson" if "b = NotJson"
    unfolding r using that by (simp add: store_releases_def)
  show "fst (snd (refreshCache cfg cp c w)) = c" if "b = NotJson"
    unfolding r using that by (simp add: store_releases_def)
qed

text \<open>
  On the network that answers 500 to everything the refresh fails with that status after
  four requests; on the network that answers with an empty array it returns after one
  request; the cache is the same afterwards in both cases.
\<close>

theorem retry_policy_witness:
  "answer down_world 3 = Inl (GitHubStatus 500) \<and>
   fst (refreshCache example_config example_platform populated_cache down_world) =
     Inl (GitHubStatus 500) \<and>
   most_often_latest [GitHubStatus 500, GitHubStatus 500, GitHubStatus 500, GitHubStatus 500]
     (GitHubStatus 500) \<and>
   fst (snd (refreshCache example_config example_platform populated_cache down_world)) =
     populated_cache \<and>
   requests (snd (snd (refreshCache example_config example_platform populated_cache down_world))) =
     replicate 4 (releases_request example_config) \<and>
   answer quiet_world 0 = Inr (Releases []) \<and>
   fst (refreshCache example_config example_platform populated_cache quiet_world) = Inr () \<and>
   fst (snd (refreshCache example_config example_platform populated_cache quiet_world)) =
     populated_cache \<and>
   requests (snd (snd (refreshCache example_config example_platform populated_cache quiet_world))) =
     [releases_request example_config]"
proof -
  have a: "answer down_world k = Inl (GitHubStatus 500)" for k
    by (simp add: answer_def down_world_def example_world_def outcome_def)
  have rd: "requests down_world = []" by (simp add: down_world_def example_world_def)
  have q: "answer quiet_world 0 = Inr (Releases [])"
    by (simp add: answer_def quiet_world_def example_world_def outcome_def)
  have rq: "requests quiet_world = []" by (simp add: quiet_world_def example_world_def)
  note d = retry_policy [of example_config example_platform populated_cache down_world]
  from d a [of 0] a [of 1] a [of 2] a [of 3]
  have "fst (refreshCache example_config example_platform populated_cache down_world) =
      Inl (surfaced [GitHubStatus 500, GitHubStatus 500, GitHubStatus 500] (GitHubStatus 500)) \<and>
    surfaced [GitHubStatus 500, GitHubStatus 500, GitHubStatus 500] (GitHubStatus 500) =
      GitHubStatus 500 \<and>
    most_often_latest [GitHubStatus 500, GitHubStatus 500, GitHubStatus 500, GitHubStatus 500]
      (surfaced [GitHubStatus 500, GitHubStatus 500, GitHubStatus 500] (GitHubStatus 500)) \<and>
    fst (snd (refreshCache example_config example_platform populated_cache down_world)) =
      populated_cache \<and>
    requests (snd (snd (refreshCache example_config example_platform populated_cache down_world))) =
      requests down_world @ replicate 4 (releases_request example_config)"
    by blast
  moreover
  have "(0::nat) \<le> 3 \<and> (\<forall>k<0. isl (answer quiet_world k)) \<and> answer quiet_world 0 = Inr (Releases [])"
    using q by simp
  with retry_policy [of example_config example_platform populated_cache quiet_world]
  have "requests (snd (snd (refreshCache example_config example_platform populated_cache quiet_world))) =
        requests quiet_world @ replicate (Suc 0) (releases_request example_config) \<and>
      fst (refreshCache example_config example_platform populated_cache quiet_world) = Inr () \<and>
      fst (snd (refreshCache example_config example_platform populated_cache quiet_world)) =
        populated_cache"
    by blast
  ultimately show ?thesis using a [of 3] q rd rq by auto
qed

text \<open>
  After three answers with status 500 a fourth request is sent; its answer is used and the
  refresh succeeds. And of four failures with the statuses 500, 502, 502, 503 the refresh
  surfaces the error of status 502, not the last one.
\<close>

theorem fourth_attempt:
  "failure (fst (refreshCache example_config example_platform empty_cache recovering_world)) = None \<and>
   length (requests (snd (snd
     (refreshCache example_config example_platform empty_cache recovering_world)))) = 4 \<and>
   map_option release_version
     (latestReleaseByEnvironment
        (fst (snd (refreshCache example_config example_platform empty_cache recovering_world)))
        ''production'') = Some ''v1.2.0'' \<and>
   failure (answer mixed_world 3) = Some (GitHubStatus 503) \<and>
   failure (fst (refreshCache example_config example_platform empty_cache mixed_world)) =
     Some (GitHubStatus 502)"
  by code_simp

text \<open>
  C2 (failures of loadCache), as the code has it. \<open>loadCache\<close> fails exactly when it
  refreshes, because the cache is unset or outdated, and the refresh fails; it then fails
  with the error of the refresh, whether or not the cache holds an index, and the cache is
  left as it was. When it does not fail it returns the index that the cache holds
  afterwards.
\<close>

theorem load_failure:
  "(fst (loadCache cfg cp c w) = Inl e \<longleftrightarrow>
      (\<not> truthy (lastUpdate c) \<or> isOutdated cfg c w) \<and> fst (refreshCache cfg cp c w) = Inl e) \<and>
   (fst (loadCache cfg cp c w) = Inl e \<longrightarrow> fst (snd (loadCache cfg cp c w)) = c) \<and>
   (fst (loadCache cfg cp c w) = Inr snapshot \<longrightarrow>
      snapshot = latestReleaseByEnvironment (fst (snd (loadCache cfg cp c w))))"
proof (cases "\<not> truthy (lastUpdate c) \<or> isOutdated cfg c w")
  case False
  then show ?thesis by (auto simp: loadCache_fresh)
next
  case True
  obtain r c' w' where r: "refreshCache cfg cp c w = (r, c', w')"
    by (cases "refreshCache cfg cp c w")
  show ?thesis
  proof (cases r)
    case (Inl e')
    with r have "c' = c" using refreshCache_failure by blast
    with True r Inl show ?thesis using loadCache_stale [OF True, of cp] by auto
  next
    case (Inr u)
    with True r show ?thesis using loadCache_stale [OF True, of cp] by auto
  qed
qed

text \<open>
  The outdated example cache on the network that answers 500: the call fails and the cache
  stays. The same cache while fresh: the call returns its index.
\<close>

theorem load_failure_witness:
  "fst (loadCache example_config example_platform populated_cache down_world) =
     Inl (GitHubStatus 500) \<and>
   truthy (lastUpdate populated_cache) \<and>
   isOutdated example_config populated_cache down_world \<and>
   fst (refreshCache example_config example_platform populated_cache down_world) =
     Inl (GitHubStatus 500) \<and>
   fst (snd (loadCache example_config example_platform populated_cache down_world)) =
     populated_cache \<and>
   fst (loadCache example_config example_platform populated_cache fresh_world) =
     Inr (latestReleaseByEnvironment
       (fst (snd (loadCache example_config example_platform populated_cache fresh_world))))"
proof -
  have "failure (fst (loadCache example_config example_platform populated_cache down_world)) =
      Some (GitHubStatus 500)"
    by code_simp
  then have f: "fst (loadCache example_config example_platform populated_cache down_world) =
      Inl (GitHubStatus 500)"
    by (simp add: failure_Some)
  have t: "truthy (lastUpdate populated_cache)"
    "\<not> isOutdated example_config populated_cache fresh_world"
    "isOutdated example_config populated_cache down_world"
    by code_simp+
  then have g: "fst (loadCache example_config example_platform populated_cache fresh_world) =
      Inr (latestReleaseByEnvironment populated_cache)"
    by (simp add: loadCache_fresh)
  from load_failure [of example_config example_platform populated_cache down_world
      "GitHubStatus 500"] f
    load_failure [of example_config example_platform populated_cache fresh_world _
      "latestReleaseByEnvironment populated_cache"] g t
  show ?thesis by simp
qed

text \<open>
  The example cache holds \<open>v1.2.0\<close> for production from an earlier refresh; it is
  outdated and the network answers 500: \<open>loadCache\<close> fails instead of returning the index
  it holds.
\<close>

theorem stale_index_not_served:
  "truthy (lastUpdate populated_cache) \<and>
   map_option release_version (latestReleaseByEnvironment populated_cache ''production'') =
     Some ''v1.2.0'' \<and>
   failure (fst (loadCache example_config example_platform populated_cache down_world)) =
     Some (GitHubStatus 500)"
  by code_simp

section \<open>The update check\<close>

lemma decide_own:
  assumes "snapshot (environmentName version) = Some rel" "platforms rel platform = Some a"
  shows "decide cfg snapshot platformName platform version =
     (case compare (release_version rel) version of
        None \<Rightarrow> Thrown InvalidVersion
      | Some k \<Rightarrow>
          if k = 1 then
            UpdateAvailable
              \<lparr>payload_name = release_version rel, payload_notes = release_notes rel,
               payload_pub_date = pub_date rel,
               payload_url =
                 (if token_set cfg then
                    Some ((case base_url cfg of None \<Rightarrow> ''undefined'' | Some u \<Rightarrow> u)
                      @ ''/download/'' @ platformName
                      @ ''?update=true&environment='' @ environmentName version)
                  else Some (asset_url a))\<rparr>
          else NoContent)"
  using assms by (simp add: decide_def get_property_def split: option.splits)

text \<open>
  C3 (update decision), as the code has it. Take a valid current version and a platform
  alias that resolves, and let the environment of that version be in the snapshot that
  \<open>loadCache\<close> returned, with the resolved platform in its asset table. Then the handler
  answers with an update exactly when \<open>gt\<close> finds the cached version strictly greater
  than the current one, and the update it offers is the cached version; a cached version
  that \<open>compare\<close> finds equal or smaller gives no content; and so does a current version
  that is the cached version itself. When the cached version and the current one are
  small, this is the precedence of Semantic Versioning: the handler answers with an update
  exactly when the cached version has the higher precedence, and with no content when it
  has the same or a lower one.
\<close>

theorem update_decision:
  assumes "valid version" "checkAlias platformName = Some platform" "platform \<noteq> []"
    and "loadCache cfg cp c w = (Inr snapshot, c', w')"
    and "snapshot (environmentName version) = Some rel" "platforms rel platform = Some a"
  shows "((\<exists>p. fst (update cfg checkAlias cp c w platformName version) = UpdateAvailable p) \<longleftrightarrow>
            gt (release_version rel) version = Some True) \<and>
         (\<forall>p. fst (update cfg checkAlias cp c w platformName version) = UpdateAvailable p \<longrightarrow>
            payload_name p = release_version rel) \<and>
         ((\<exists>k. compare (release_version rel) version = Some k \<and> k \<le> 0) \<longrightarrow>
            fst (update cfg checkAlias cp c w platformName version) = NoContent) \<and>
         (release_version rel = version \<longrightarrow>
            fst (update cfg checkAlias cp c w platformName version) = NoContent) \<and>
         (small_tag (release_version rel) \<and> small_tag version \<longrightarrow>
            ((\<exists>p. fst (update cfg checkAlias cp c w platformName version) = UpdateAvailable p) \<longleftrightarrow>
               exact_compare (release_version rel) version = Some 1) \<and>
            ((\<exists>k. exact_compare (release_version rel) version = Some k \<and> k \<le> 0) \<longrightarrow>
               fst (update cfg checkAlias cp c w platformName version) = NoContent))"
proof -
  let ?u = "fst (update cfg checkAlias cp c w platformName version)"
  have u: "?u = decide cfg snapshot platformName platform version"
    using assms(1-4) by (simp add: update_def)
  note d = decide_own [where snapshot = snapshot and version = version and cfg = cfg
      and platformName = platformName, OF assms(5,6)]
  have 1: "(\<exists>p. ?u = UpdateAvailable p) \<longleftrightarrow> gt (release_version rel) version = Some True"
    using compare_cases [of "release_version rel" version]
    by (auto simp: u d gt_def)
  have 2: "\<forall>p. ?u = UpdateAvailable p \<longrightarrow> payload_name p = release_version rel"
    by (auto simp: u d split: option.splits if_splits)
  have 3: "(\<exists>k. compare (release_version rel) version = Some k \<and> k \<le> 0) \<longrightarrow> ?u = NoContent"
    by (auto simp: u d)
  have 4: "release_version rel = version \<longrightarrow> ?u = NoContent"
    using valid_compare_self [OF assms(1)] by (auto simp: u d)
  have 5: "((\<exists>p. ?u = UpdateAvailable p) \<longleftrightarrow> exact_compare (release_version rel) version = Some 1) \<and>
      ((\<exists>k. exact_compare (release_version rel) version = Some k \<and> k \<le> 0) \<longrightarrow> ?u = NoContent)"
    if "small_tag (release_version rel) \<and> small_tag version"
  proof -
    from that have "compare (release_version rel) version = exact_compare (release_version rel) version"
      by (simp add: compare_exact)
    with 1 3 compare_cases [of "release_version rel" version] show ?thesis
      by (auto simp: gt_def)
  qed
  from 1 2 3 4 5 show ?thesis by blast
qed

text \<open>
  The fresh example cache holds \<open>v1.2.0\<close> for production with a Windows installer. A
  client on \<open>1.1.0\<close> is offered \<open>v1.2.0\<close>; clients on \<open>1.2.0\<close> and on \<open>v1.2.0\<close> get no
  content.
\<close>

theorem update_decision_witness:
  "valid ''1.1.0'' \<and> valid ''1.2.0'' \<and> valid ''v1.2.0'' \<and> example_alias ''win'' = Some ''exe'' \<and>
   small_tag ''1.1.0'' \<and> small_tag ''1.2.0'' \<and> small_tag ''v1.2.0'' \<and>
   gt ''v1.2.0'' ''1.1.0'' = Some True \<and> compare ''v1.2.0'' ''1.2.0'' = Some 0 \<and>
   exact_compare ''v1.2.0'' ''1.1.0'' = Some 1 \<and> exact_compare ''v1.2.0'' ''1.2.0'' = Some 0 \<and>
   (\<exists>p. fst (update example_config example_alias example_platform populated_cache fresh_world
            ''win'' ''1.1.0'') = UpdateAvailable p \<and> payload_name p = ''v1.2.0'') \<and>
   fst (update example_config example_alias example_platform populated_cache fresh_world
          ''win'' ''1.2.0'') = NoContent \<and>
   fst (update example_config example_alias example_platform populated_cache fresh_world
          ''win'' ''v1.2.0'') = NoContent"
proof -
  have v: "valid ''1.1.0''" "valid ''1.2.0''" "valid ''v1.2.0''" by code_simp+
  have s: "small_tag ''1.1.0''" "small_tag ''1.2.0''" "small_tag ''v1.2.0''" by code_simp+
  have al: "example_alias ''win'' = Some ''exe''" by code_simp
  have ne: "''exe'' \<noteq> []" by simp
  have g: "gt ''v1.2.0'' ''1.1.0'' = Some True" "compare ''v1.2.0'' ''1.2.0'' = Some 0" by code_simp+
  have x: "exact_compare ''v1.2.0'' ''1.1.0'' = Some 1" "exact_compare ''v1.2.0'' ''1.2.0'' = Some 0"
    by code_simp+
  have env: "environmentName ''1.1.0'' = ''production''" "environmentName ''1.2.0'' = ''production''"
    "environmentName ''v1.2.0'' = ''production''"
    by code_simp+
  have "truthy (lastUpdate populated_cache)"
    "\<not> isOutdated example_config populated_cache fresh_world"
    by code_simp+
  then have l: "loadCache example_config example_platform populated_cache fresh_world =
      (Inr (latestReleaseByEnvironment populated_cache), populated_cache, fresh_world)"
    by (simp add: loadCache_fresh)
  have "case latestReleaseByEnvironment populated_cache ''production'' of
          None \<Rightarrow> False
        | Some rel \<Rightarrow>
            (case platforms rel ''exe'' of None \<Rightarrow> False
             | Some a \<Rightarrow> release_version rel = ''v1.2.0'')"
    by code_simp
  then obtain rel a where
    r: "latestReleaseByEnvironment populated_cache ''production'' = Some rel"
    "platforms rel ''exe'' = Some a" "release_version rel = ''v1.2.0''"
    by (auto split: option.splits)
  note t1 = update_decision [where checkAlias = example_alias and platformName = "''win''"
      and version = "''1.1.0''" and rel = rel, OF v(1) al ne l _ r(2)]
  note t2 = update_decision [where checkAlias = example_alias and platformName = "''win''"
      and version = "''1.2.0''" and rel = rel, OF v(2) al ne l _ r(2)]
  note t3 = update_decision [where checkAlias = example_alias and platformName = "''win''"
      and version = "''v1.2.0''" and rel = rel, OF v(3) al ne l _ r(2)]
  from t1 r env x(1) s have
    "\<exists>p. fst (update example_config example_alias example_platform populated_cache fresh_world
            ''win'' ''1.1.0'') = UpdateAvailable p \<and> payload_name p = ''v1.2.0''"
    by auto
  moreover from t2 r env x(2) s have
    "fst (update example_config example_alias example_platform populated_cache fresh_world
          ''win'' ''1.2.0'') = NoContent"
    by auto
  moreover from t3 r env have
    "fst (update example_config example_alias example_platform populated_cache fresh_world
          ''win'' ''v1.2.0'') = NoContent"
    by auto
  ultimately show ?thesis using v s al g x by blast
qed

text \<open>
  The cache holds \<open>v1.0.0-beta-x.9007199254740993\<close> for beta, which has a higher
  precedence than the version \<open>1.0.0-beta-x.9007199254740992\<close> of the client; the
  handler answers with no content.
\<close>

theorem rounded_update_missed:
  "valid ''1.0.0-beta-x.9007199254740992'' \<and>
   example_alias ''win'' = Some ''exe'' \<and>
   map_option release_version
     (latestReleaseByEnvironment
        (fst (snd (loadCache example_config example_platform empty_cache rounded_world)))
        ''beta'') = Some ''v1.0.0-beta-x.9007199254740993'' \<and>
   exact_compare ''v1.0.0-beta-x.9007199254740993'' ''1.0.0-beta-x.9007199254740992'' = Some 1 \<and>
   fst (update example_config example_alias example_platform empty_cache rounded_world
          ''win'' ''1.0.0-beta-x.9007199254740992'') = NoContent"
  by code_simp

section \<open>The environment of a request\<close>

lemma split_on_unfold:
  "split_on c s =
     takeWhile (\<lambda>x. x \<noteq> c) s #
       (if c \<in> set s then split_on c (tl (dropWhile (\<lambda>x. x \<noteq> c) s)) else [])"
proof (induction s)
  case Nil
  then show ?case by simp
next
  case (Cons x xs)
  show ?case
  proof (cases "x = c")
    case True
    then show ?thesis by simp
  next
    case False
    then show ?thesis by (subst split_on.simps) (simp add: Cons.IH)
  qed
qed

lemma segment_no_hyphen: "CHR ''-'' \<notin> set version \<Longrightarrow> segment version = []"
proof -
  assume "CHR ''-'' \<notin> set version"
  then have dw: "dropWhile (\<lambda>x. x \<noteq> CHR ''-'') version = []" by auto
  show ?thesis unfolding segment_def dw by simp
qed

lemma environmentName_segment:
  "environmentName version = (if segment version = [] then ''production'' else segment version)"
proof (cases "CHR ''-'' \<in> set version")
  case False
  have "split_on CHR ''-'' version = [takeWhile (\<lambda>x. x \<noteq> CHR ''-'') version]"
    using False by (subst split_on_unfold) simp
  then show ?thesis by (simp add: environmentName_def segment_no_hyphen [OF False])
next
  case True
  let ?rest = "tl (dropWhile (\<lambda>x. x \<noteq> CHR ''-'') version)"
  have "split_on CHR ''-'' version =
      takeWhile (\<lambda>x. x \<noteq> CHR ''-'') version # split_on CHR ''-'' ?rest"
    using True by (subst split_on_unfold) simp
  also have "split_on CHR ''-'' ?rest = takeWhile (\<lambda>x. x \<noteq> CHR ''-'') ?rest #
      (if CHR ''-'' \<in> set ?rest
       then split_on CHR ''-'' (tl (dropWhile (\<lambda>x. x \<noteq> CHR ''-'') ?rest)) else [])"
    by (rule split_on_unfold)
  finally show ?thesis by (simp add: environmentName_def segment_def drop_Suc)
qed

lemma environmentName_beta: "CHR ''-'' \<notin> set p \<Longrightarrow> environmentName (p @ ''-beta'') = ''beta''"
proof -
  assume h: "CHR ''-'' \<notin> set p"
  then have "dropWhile (\<lambda>x. x \<noteq> CHR ''-'') (p @ ''-beta'') = ''-beta''"
    by (subst dropWhile_append2) auto
  then have "segment (p @ ''-beta'') = ''beta''" by (simp add: segment_def)
  then show ?thesis by (simp add: environmentName_segment)
qed

text \<open>
  C10 (environment of a request), as the code has it. The handler takes no environment as
  input: the environment is the text between the first hyphen of the current version and
  the next hyphen, and it is \<open>production\<close> when that text is empty, in particular when the
  version has no hyphen. A version that ends in \<open>-beta\<close> after a part without a hyphen has
  the environment \<open>beta\<close>. The decision reads the snapshot at the environment of the
  version only: two snapshots that agree there give the same answer.
\<close>

theorem environment_from_version:
  "environmentName version = (if segment version = [] then ''production'' else segment version) \<and>
   (CHR ''-'' \<notin> set version \<longrightarrow> environmentName version = ''production'') \<and>
   (CHR ''-'' \<notin> set p \<longrightarrow> environmentName (p @ ''-beta'') = ''beta'') \<and>
   (snapshot (environmentName version) = snapshot' (environmentName version) \<longrightarrow>
      decide cfg snapshot platformName platform version =
      decide cfg snapshot' platformName platform version)"
proof (intro conjI impI)
  show "environmentName version = (if segment version = [] then ''production'' else segment version)"
    by (rule environmentName_segment)
  show "environmentName version = ''production''" if "CHR ''-'' \<notin> set version"
    using that by (simp add: environmentName_segment segment_no_hyphen)
  show "environmentName (p @ ''-beta'') = ''beta''" if "CHR ''-'' \<notin> set p"
    using that by (rule environmentName_beta)
  show "decide cfg snapshot platformName platform version =
      decide cfg snapshot' platformName platform version"
    if "snapshot (environmentName version) = snapshot' (environmentName version)"
    using that by (simp add: decide_def get_property_def)
qed

text \<open>
  \<open>1.1.0-beta\<close> has the environment \<open>beta\<close>, \<open>1.2.0\<close> has \<open>production\<close>, and the
  answer to \<open>1.1.0-beta\<close> is the same when production is removed from the snapshot.
\<close>

theorem environment_from_version_witness:
  "CHR ''-'' \<notin> set ''1.1.0'' \<and> environmentName (''1.1.0'' @ ''-beta'') = ''beta'' \<and>
   CHR ''-'' \<notin> set ''1.2.0'' \<and> environmentName ''1.2.0'' = ''production'' \<and>
   decide example_config (latestReleaseByEnvironment populated_cache) ''mac'' ''dmg'' ''1.1.0-beta'' =
   decide example_config ((latestReleaseByEnvironment populated_cache)(''production'' := None))
     ''mac'' ''dmg'' ''1.1.0-beta''"
proof -
  have a: "CHR ''-'' \<notin> set ''1.1.0''" "CHR ''-'' \<notin> set ''1.2.0''" by simp_all
  note t = environment_from_version [of "''1.2.0''" "''1.1.0''"]
  from t a have b: "environmentName (''1.1.0'' @ ''-beta'') = ''beta''"
    "environmentName ''1.2.0'' = ''production''"
    by blast+
  then have "latestReleaseByEnvironment populated_cache (environmentName ''1.1.0-beta'') =
      ((latestReleaseByEnvironment populated_cache)(''production'' := None))
        (environmentName ''1.1.0-beta'')"
    by simp
  with environment_from_version [of "''1.1.0-beta''" "''1.1.0''"
      "latestReleaseByEnvironment populated_cache"
      "(latestReleaseByEnvironment populated_cache)(''production'' := None)"
      example_config "''mac''" "''dmg''"]
  have "decide example_config (latestReleaseByEnvironment populated_cache) ''mac'' ''dmg'' ''1.1.0-beta'' =
   decide example_config ((latestReleaseByEnvironment populated_cache)(''production'' := None))
     ''mac'' ''dmg'' ''1.1.0-beta''"
    by blast
  with a b show ?thesis by blast
qed

text \<open>
  The valid version \<open>1.0.0--x\<close> has a hyphen, and the text after its first hyphen is
  empty; its environment is \<open>production\<close>, and the client is offered the latest release of
  production.
\<close>

theorem empty_segment_is_production:
  "valid ''1.0.0--x'' \<and> CHR ''-'' \<in> set ''1.0.0--x'' \<and> segment ''1.0.0--x'' = [] \<and>
   environmentName ''1.0.0--x'' = ''production'' \<and>
   offered (fst (update example_config example_alias example_platform populated_cache fresh_world
     ''win'' ''1.0.0--x'')) = Some ''v1.2.0''"
  by code_simp

section \<open>Concurrent calls\<close>

lemma run_append:
  "run cfg cp (xs @ ys) s = run cfg cp ys (run cfg cp xs s)"
  by (induction xs arbitrary: s) simp_all

subsection \<open>A single call runs as loadCache does\<close>

lemma step_single:
  "step_call cfg cp 0 (single c w ph) =
     (case step_phase cfg cp ph c w of (ph', c', w') \<Rightarrow> single c' w' ph')"
  by (simp add: step_call_def single_def split: prod.splits)

lemma run_returned: "run cfg cp (replicate k 0) (single c w (Returned r)) = single c w (Returned r)"
  by (induction k) (simp_all add: step_single step_phase_def)

lemma run_parsing:
  "run cfg cp (replicate (Suc (Suc k)) 0) (single c w (Parsing b)) = finish cp (Inr b, w) c"
proof -
  obtain r c' w' where s: "store_releases cp b c w = (r, c', w')"
    by (cases "store_releases cp b c w")
  show ?thesis
  proof (cases r)
    case (Inl e)
    with s show ?thesis
      by (simp add: step_single step_phase_def finish_def run_returned)
  next
    case (Inr u)
    with s show ?thesis
      by (simp add: step_single step_phase_def finish_def run_returned)
  qed
qed

lemma step_fetching:
  "step_call cfg cp 0 (single c (snd (send req w)) (Fetching n errors (length (requests w)))) =
     (case fetch req w of
        (res, w') \<Rightarrow>
          (case outcome res of
             Inr b \<Rightarrow> single c w' (Parsing b)
           | Inl e \<Rightarrow>
               (case n of
                  0 \<Rightarrow> single c w' (Returned (Inl (surfaced errors e)))
                | Suc m \<Rightarrow> single c w' (Backoff m (errors @ [e])))))"
  by (simp add: step_single step_phase_def fetch_def send_def
      split: prod.splits sum.splits nat.splits)

lemma step_backoff:
  "step_call cfg cp 0 (single c w (Backoff n errors)) =
     single c (snd (send (releases_request cfg) w)) (Fetching n errors (length (requests w)))"
  by (simp add: step_single step_phase_def send_def)

lemma run_fetching:
  "run cfg cp (replicate (2 * n + 3 + k) 0)
     (single c (snd (send (releases_request cfg) w)) (Fetching n errors (length (requests w)))) =
   finish cp (retry_from n errors (attempt cfg) w) c"
proof (induction n arbitrary: w errors)
  case 0
  obtain res w' where f: "fetch (releases_request cfg) w = (res, w')"
    by (cases "fetch (releases_request cfg) w")
  have steps: "replicate (2 * 0 + 3 + k) (0::nat) = 0 # replicate (Suc (Suc k)) 0"
    by (simp add: numeral_eq_Suc)
  show ?case
  proof (cases "outcome res")
    case (Inl e)
    with f show ?thesis
      unfolding steps run.simps step_fetching
      by (simp add: attempt_def finish_def run_returned del: replicate.simps replicate_Suc)
  next
    case (Inr b)
    with f show ?thesis
      unfolding steps run.simps step_fetching
      by (simp add: attempt_def run_parsing del: replicate.simps replicate_Suc)
  qed
next
  case (Suc n)
  obtain res w' where f: "fetch (releases_request cfg) w = (res, w')"
    by (cases "fetch (releases_request cfg) w")
  have steps: "replicate (2 * Suc n + 3 + k) (0::nat) = 0 # replicate (Suc (Suc (2 * n + 2 + k))) 0"
    by (simp add: numeral_eq_Suc)
  have steps': "replicate (Suc (Suc (2 * n + 2 + k))) (0::nat) = 0 # replicate (2 * n + 3 + k) 0"
    by (simp add: numeral_eq_Suc)
  show ?case
  proof (cases "outcome res")
    case (Inr b)
    with f show ?thesis
      unfolding steps run.simps step_fetching
      by (simp add: attempt_def run_parsing del: replicate.simps replicate_Suc)
  next
    case (Inl e)
    have "run cfg cp (replicate (2 * Suc n + 3 + k) 0)
        (single c (snd (send (releases_request cfg) w))
          (Fetching (Suc n) errors (length (requests w)))) =
      run cfg cp (replicate (Suc (Suc (2 * n + 2 + k))) 0) (single c w' (Backoff n (errors @ [e])))"
      unfolding steps run.simps step_fetching using f Inl by simp
    also have "\<dots> = run cfg cp (replicate (2 * n + 3 + k) 0)
        (single c (snd (send (releases_request cfg) w'))
          (Fetching n (errors @ [e]) (length (requests w'))))"
      unfolding steps' run.simps step_backoff ..
    also have "\<dots> = finish cp (retry_from n (errors @ [e]) (attempt cfg) w') c"
      by (rule Suc.IH)
    also have "retry_from n (errors @ [e]) (attempt cfg) w' =
        retry_from (Suc n) errors (attempt cfg) w"
      using f Inl by (simp add: attempt_def)
    finally show ?thesis .
  qed
qed

text \<open>
  A call that runs alone ends, after at most ten steps, with the result, the cache and the
  world of \<open>loadCache\<close>.
\<close>

lemma run_single_call:
  "run cfg cp (replicate (10 + k) 0) (single c w Called) =
     (case loadCache cfg cp c w of (r, c', w') \<Rightarrow> single c' w' (Returned r))"
proof (cases "\<not> truthy (lastUpdate c) \<or> isOutdated cfg c w")
  case False
  have steps: "replicate (10 + k) (0::nat) = 0 # replicate (9 + k) 0"
    by (simp add: numeral_eq_Suc)
  from False show ?thesis
    unfolding steps run.simps
    by (simp add: step_single step_phase_def loadCache_def run_returned
        del: replicate.simps replicate_Suc)
next
  case True
  have steps: "replicate (10 + k) (0::nat) = 0 # replicate (2 * 3 + 3 + k) 0"
    by (simp add: numeral_eq_Suc)
  have first: "step_call cfg cp 0 (single c w Called) =
      single c (snd (send (releases_request cfg) w)) (Fetching 3 [] (length (requests w)))"
    using True by (auto simp: step_single step_phase_def send_def)
  have "run cfg cp (replicate (10 + k) 0) (single c w Called) =
      finish cp (retry 3 (attempt cfg) w) c"
    unfolding steps run.simps first retry_def by (rule run_fetching)
  also have "\<dots> = (case loadCache cfg cp c w of (r, c', w') \<Rightarrow> single c' w' (Returned r))"
    using True
    by (auto simp: finish_def loadCache_def refreshCache_def split: prod.splits sum.splits)
  finally show ?thesis .
qed

subsection \<open>Calls that start together\<close>

lemma isOutdated_requests:
  "isOutdated cfg c (w\<lparr>requests := rs\<rparr>) = isOutdated cfg c w"
  by (simp add: isOutdated_def split: option.splits)

lemma step_call_started:
  assumes "\<not> truthy (lastUpdate c) \<or> isOutdated cfg c w" and "k < n"
  shows "step_call cfg cp k (started cfg c w n k) = started cfg c w n (Suc k)"
proof -
  have nth: "calls (started cfg c w n k) ! k = Called"
    using assms(2) by (simp add: started_def nth_append)
  have len: "k < length (calls (started cfg c w n k))"
    using assms(2) by (simp add: started_def)
  have upd: "(map (\<lambda>i. Fetching 3 [] (length (requests w) + i)) [0..<k] @ replicate (n - k) Called)
      [k := Fetching 3 [] (length (requests w) + k)] =
      map (\<lambda>i. Fetching 3 [] (length (requests w) + i)) [0..<Suc k] @ replicate (n - Suc k) Called"
  proof -
    from assms(2) obtain m where m: "n - k = Suc m" by (cases "n - k") auto
    then have "n - Suc k = m" by simp
    with m show ?thesis by (simp add: list_update_append)
  qed
  have ph: "step_phase cfg cp Called c (outside (started cfg c w n k)) =
      (Fetching 3 [] (length (requests w) + k), c,
       w\<lparr>requests := requests w @ replicate (Suc k) (releases_request cfg)\<rparr>)"
    using assms(1)
    by (auto simp: step_phase_def started_def send_def isOutdated_requests replicate_append_same)
  show ?thesis
    unfolding step_call_def using len nth ph upd
    by (simp add: started_def)
qed

lemma run_started:
  assumes "\<not> truthy (lastUpdate c) \<or> isOutdated cfg c w"
  shows "k \<le> n \<Longrightarrow> run cfg cp [0..<k] (started cfg c w n 0) = started cfg c w n k"
proof (induction k)
  case 0
  then show ?case by simp
next
  case (Suc k)
  then have "run cfg cp [0..<k] (started cfg c w n 0) = started cfg c w n k" by simp
  then show ?case
    using Suc.prems step_call_started [OF assms, of k n cp]
    by (simp add: run_append)
qed

text \<open>
  C9 (single flight), as the code has it. There is no single flight. When \<open>n\<close> calls of
  \<open>loadCache\<close> start, one after the other and before any answer arrives, on a cache that
  is unset or outdated, each of them finds the cache so and sends a request of its own:
  \<open>n\<close> requests are sent and \<open>n\<close> refreshes are in progress, each waiting for the
  answer to its own request.
\<close>

theorem no_single_flight:
  assumes "\<not> truthy (lastUpdate c) \<or> isOutdated cfg c w"
  shows "run cfg cp [0..<n] \<lparr>shared = c, outside = w, calls = replicate n Called\<rparr> =
     \<lparr>shared = c,
      outside = w\<lparr>requests := requests w @ replicate n (releases_request cfg)\<rparr>,
      calls = map (\<lambda>i. Fetching 3 [] (length (requests w) + i)) [0..<n]\<rparr> \<and>
    length (requests (outside
      (run cfg cp [0..<n] \<lparr>shared = c, outside = w, calls = replicate n Called\<rparr>))) =
      length (requests w) + n \<and>
    list_all in_flight
      (calls (run cfg cp [0..<n] \<lparr>shared = c, outside = w, calls = replicate n Called\<rparr>))"
proof -
  have r: "run cfg cp [0..<n] \<lparr>shared = c, outside = w, calls = replicate n Called\<rparr> =
     \<lparr>shared = c,
      outside = w\<lparr>requests := requests w @ replicate n (releases_request cfg)\<rparr>,
      calls = map (\<lambda>i. Fetching 3 [] (length (requests w) + i)) [0..<n]\<rparr>"
    using run_started [OF assms, of n n cp] by (simp add: started_def)
  show ?thesis unfolding r by (simp add: list_all_iff in_flight_def)
qed

text \<open>Three calls on the empty cache send three requests.\<close>

theorem no_single_flight_witness:
  "\<not> truthy (lastUpdate empty_cache) \<and>
   length (requests (outside (run example_config example_platform [0..<3]
     \<lparr>shared = empty_cache, outside = recovering_world, calls = replicate 3 Called\<rparr>))) =
     length (requests recovering_world) + 3 \<and>
   list_all in_flight (calls (run example_config example_platform [0..<3]
     \<lparr>shared = empty_cache, outside = recovering_world, calls = replicate 3 Called\<rparr>))"
proof -
  have h: "\<not> truthy (lastUpdate empty_cache)" by (simp add: empty_cache_def truthy_def)
  then have "\<not> truthy (lastUpdate empty_cache) \<or>
      isOutdated example_config empty_cache recovering_world"
    by simp
  from no_single_flight [OF this, of example_platform 3] h show ?thesis by blast
qed

text \<open>
  Two calls that start together on the empty cache: two requests have been sent and both
  calls are in the middle of a refresh. When both have run to their end, five requests
  have been sent, four by the first call and one by the second.
\<close>

theorem two_calls_two_requests:
  "length (requests (outside (run example_config example_platform [0, 1]
     \<lparr>shared = empty_cache, outside = recovering_world, calls = [Called, Called]\<rparr>))) = 2 \<and>
   list_all in_flight (calls (run example_config example_platform [0, 1]
     \<lparr>shared = empty_cache, outside = recovering_world, calls = [Called, Called]\<rparr>)) \<and>
   length (requests (outside (run example_config example_platform
     [0, 1, 0, 1, 0, 1, 0, 1, 0, 1, 0, 1, 0, 1, 0, 1, 0, 1, 0, 1]
     \<lparr>shared = empty_cache, outside = recovering_world, calls = [Called, Called]\<rparr>))) = 5 \<and>
   list_all finished (calls (run example_config example_platform
     [0, 1, 0, 1, 0, 1, 0, 1, 0, 1, 0, 1, 0, 1, 0, 1, 0, 1, 0, 1]
     \<lparr>shared = empty_cache, outside = recovering_world, calls = [Called, Called]\<rparr>))"
  by code_simp

end
